theory Spec2Isabelle
  imports Complex_Main "HOL-Library.Log_Nat"
begin

section \<open>Time, durations and machine integers\<close>

text \<open>
  Instants (Go \<open>time.Time\<close>) and durations (Go \<open>time.Duration\<close>) are integers counting
  nanoseconds; instants are measured from the Unix epoch.  A \<open>Duration\<close> and an \<open>int\<close> are
  64-bit signed in Go: \<open>Time.Sub\<close> saturates at the bounds of a \<open>Duration\<close>, unary minus and
  \<open>+\<close> wrap around.
\<close>

definition minInt64 :: int where
  "minInt64 = - 9223372036854775808"

definition maxInt64 :: int where
  "maxInt64 = 9223372036854775807"

definition wrap64 :: "int \<Rightarrow> int" where
  "wrap64 x = (x + 9223372036854775808) mod 18446744073709551616 - 9223372036854775808"

definition Millisecond :: int where
  "Millisecond = 1000000"

definition Second :: int where
  "Second = 1000000000"

definition Minute :: int where
  "Minute = 60 * Second"

text \<open>The zero \<open>time.Time\<close> (January 1, year 1, UTC), which an unset field holds.\<close>

definition zeroTime :: int where
  "zeroTime = - 62135596800 * 1000000000"

definition time_Sub :: "int \<Rightarrow> int \<Rightarrow> int" where
  "time_Sub t u =
     (let d = t - u in
      if d > maxInt64 then maxInt64 else if d < minInt64 then minInt64 else d)"

definition time_Add :: "int \<Rightarrow> int \<Rightarrow> int" where
  "time_Add t d = t + d"

definition time_Before :: "int \<Rightarrow> int \<Rightarrow> bool" where
  "time_Before t u = (t < u)"

text \<open>Go's integer division truncates towards zero.\<close>

definition trunc_quot :: "int \<Rightarrow> int \<Rightarrow> int" where
  "trunc_quot a b = sgn a * sgn b * (\<bar>a\<bar> div \<bar>b\<bar>)"

text \<open>
  A float64 value is the rational number it stands for.  \<open>float64_round\<close> rounds a
  rational to the nearest number with a mantissa of 53 bits, ties to the even mantissa,
  as every float64 operation and conversion does; \<open>float64_exponent\<close> is the binary
  exponent of a positive rational.  The exponent range of float64 is left out: the
  values below are 0 or lie between \<open>10^-9\<close> and \<open>2^127\<close> in magnitude.
\<close>

definition float64_exponent :: "rat \<Rightarrow> int" where
  "float64_exponent x =
     (let (p, q) = quotient_of x; e = bitlen p - bitlen q
      in if 2 powi e \<le> x then e else e - 1)"

definition round_half_even :: "rat \<Rightarrow> int" where
  "round_half_even m =
     (let f = \<lfloor>m\<rfloor>; d = m - of_int f
      in if d < 1 / 2 then f else if 1 / 2 < d then f + 1
         else if even f then f else f + 1)"

definition float64_round :: "rat \<Rightarrow> rat" where
  "float64_round x =
     (if x = 0 then 0
      else (let ulp = 2 powi (float64_exponent \<bar>x\<bar> - 52)
            in sgn x * of_int (round_half_even (\<bar>x\<bar> / ulp)) * ulp))"

definition float64_of_int :: "int \<Rightarrow> rat" where
  "float64_of_int n = float64_round (of_int n)"

text \<open>
  \<open>Duration.Seconds\<close>: \<open>sec := d / Second; nsec := d % Second;
  return float64(sec) + float64(nsec)/1e9\<close>.
\<close>

definition Duration_Seconds :: "int \<Rightarrow> rat" where
  "Duration_Seconds d =
     (let sec = trunc_quot d Second;
          nsec = d - sec * Second
      in float64_round (float64_of_int sec + float64_round (float64_of_int nsec / 1000000000)))"

text \<open>
  The conversion \<open>int(f)\<close> drops the fraction.  Where the result does not fit an
  \<open>int\<close> the Go specification leaves it to the implementation; the model takes the
  value amd64 produces, the smallest \<open>int\<close>.
\<close>

definition float64_to_int :: "rat \<Rightarrow> int" where
  "float64_to_int f =
     (let x = (if 0 \<le> f then \<lfloor>f\<rfloor> else - \<lfloor>- f\<rfloor>)
      in if minInt64 \<le> x \<and> x \<le> maxInt64 then x else minInt64)"

text \<open>\<open>int(timeElapsedSeconds * float64(rl.requestsPerSecond))\<close>.\<close>

definition tokensToAdd :: "int \<Rightarrow> int \<Rightarrow> int" where
  "tokensToAdd timeElapsed rps =
     float64_to_int (float64_round (Duration_Seconds timeElapsed * float64_of_int rps))"

section \<open>The rate limiter\<close>

record RateLimiter =
  requestsPerSecond :: int
  burstSize :: int
  tokens :: "string \<Rightarrow> int option"
  lastUpdate :: "string \<Rightarrow> int option"
  cleanupInterval :: int
  inactiveThreshold :: int
  lastCleanup :: int

text \<open>Reading a Go map at a missing key gives the zero value of the element type.\<close>

definition tokens_at :: "RateLimiter \<Rightarrow> string \<Rightarrow> int" where
  "tokens_at rl clientID = (case tokens rl clientID of None \<Rightarrow> 0 | Some v \<Rightarrow> v)"

definition lastUpdate_at :: "RateLimiter \<Rightarrow> string \<Rightarrow> int" where
  "lastUpdate_at rl clientID =
     (case lastUpdate rl clientID of None \<Rightarrow> zeroTime | Some t \<Rightarrow> t)"

definition NewRateLimiter :: "int \<Rightarrow> int \<Rightarrow> int \<Rightarrow> int \<Rightarrow> int \<Rightarrow> RateLimiter" where
  "NewRateLimiter rps burst windowSize cleanupInterval0 inactiveThreshold0 =
     \<lparr> requestsPerSecond = rps,
       burstSize = burst,
       tokens = (\<lambda>_. None),
       lastUpdate = (\<lambda>_. None),
       cleanupInterval = (if cleanupInterval0 = 0 then 1 * Minute else cleanupInterval0),
       inactiveThreshold = (if inactiveThreshold0 = 0 then 5 * Minute else inactiveThreshold0),
       lastCleanup = zeroTime \<rparr>"

definition calculateCurrentTokens :: "RateLimiter \<Rightarrow> string \<Rightarrow> int \<Rightarrow> int" where
  "calculateCurrentTokens rl clientID now =
     (case lastUpdate rl clientID of
        None \<Rightarrow> 0
      | Some lu \<Rightarrow>
          (let timeElapsed = time_Sub now lu;
               toAdd = tokensToAdd timeElapsed (requestsPerSecond rl);
               currentTokens = wrap64 (tokens_at rl clientID + toAdd);
               currentTokens = (if currentTokens > burstSize rl then burstSize rl
                                else currentTokens);
               currentTokens = (if currentTokens < 0 then 0 else currentTokens)
           in currentTokens))"

text \<open>
  \<open>cleanup\<close> reads the clock itself (\<open>now\<close> below) and deletes, from both maps, every
  key of \<open>lastUpdate\<close> whose entry is before the cutoff.
\<close>

definition cleanup :: "RateLimiter \<Rightarrow> int \<Rightarrow> RateLimiter" where
  "cleanup rl now =
     (let cutoff = time_Add now (wrap64 (- inactiveThreshold rl)) in
      rl\<lparr> tokens := (\<lambda>clientID.
             case lastUpdate rl clientID of
               None \<Rightarrow> tokens rl clientID
             | Some lu \<Rightarrow> if time_Before lu cutoff then None else tokens rl clientID),
          lastUpdate := (\<lambda>clientID.
             case lastUpdate rl clientID of
               None \<Rightarrow> None
             | Some lu \<Rightarrow> if time_Before lu cutoff then None else Some lu) \<rparr>)"

text \<open>
  \<open>Allow\<close> in four stages, in the order of the source: the periodic cleanup
  (\<open>sweep_if_due\<close>, lines 78 to 81), the initialisation or reset of the client
  (\<open>init_or_reset\<close>, lines 84 to 94), the recomputation of its tokens (\<open>recompute\<close>,
  lines 97 and 98) and the consumption of a token (\<open>consume\<close>, lines 101 to 106).
  \<open>now\<close> is the clock reading that \<open>Allow\<close> takes, \<open>cnow\<close> the later reading that
  \<open>cleanup\<close> takes when it runs.  The mutex makes the whole call one step.
\<close>

definition sweep_if_due :: "RateLimiter \<Rightarrow> int \<Rightarrow> int \<Rightarrow> RateLimiter" where
  "sweep_if_due rl now cnow =
     (if time_Sub now (lastCleanup rl) > cleanupInterval rl
      then (cleanup rl cnow)\<lparr> lastCleanup := now \<rparr>
      else rl)"

definition fill :: "RateLimiter \<Rightarrow> int \<Rightarrow> string \<Rightarrow> RateLimiter" where
  "fill rl now clientID =
     rl\<lparr> tokens := (tokens rl)(clientID \<mapsto> burstSize rl),
         lastUpdate := (lastUpdate rl)(clientID \<mapsto> now) \<rparr>"

text \<open>Initialise or reset the client; \<open>None\<close> is the early \<open>return false\<close>.\<close>

definition init_or_reset :: "RateLimiter \<Rightarrow> int \<Rightarrow> string \<Rightarrow> RateLimiter option" where
  "init_or_reset rl now clientID =
     (case tokens rl clientID of
        None \<Rightarrow> if requestsPerSecond rl = 0 then None else Some (fill rl now clientID)
      | Some _ \<Rightarrow>
          if time_Sub now (lastUpdate_at rl clientID) > inactiveThreshold rl
          then Some (fill rl now clientID)
          else Some rl)"

definition recompute :: "RateLimiter \<Rightarrow> int \<Rightarrow> string \<Rightarrow> RateLimiter" where
  "recompute rl now clientID =
     rl\<lparr> tokens := (tokens rl)(clientID \<mapsto> calculateCurrentTokens rl clientID now),
         lastUpdate := (lastUpdate rl)(clientID \<mapsto> now) \<rparr>"

definition consume :: "RateLimiter \<Rightarrow> string \<Rightarrow> bool \<times> RateLimiter" where
  "consume rl clientID =
     (if tokens_at rl clientID > 0
      then (True, rl\<lparr> tokens := (tokens rl)(clientID \<mapsto> tokens_at rl clientID - 1) \<rparr>)
      else (False, rl))"

text \<open>The store as it is just before the token is consumed.\<close>

definition Allow_refreshed :: "RateLimiter \<Rightarrow> int \<Rightarrow> int \<Rightarrow> string \<Rightarrow> RateLimiter option" where
  "Allow_refreshed rl now cnow clientID =
     map_option (\<lambda>r. recompute r now clientID)
       (init_or_reset (sweep_if_due rl now cnow) now clientID)"

definition Allow :: "RateLimiter \<Rightarrow> int \<Rightarrow> int \<Rightarrow> string \<Rightarrow> bool \<times> RateLimiter" where
  "Allow rl now cnow clientID =
     (case Allow_refreshed rl now cnow clientID of
        None \<Rightarrow> (False, sweep_if_due rl now cnow)
      | Some r \<Rightarrow> consume r clientID)"

text \<open>A sequence of calls, each with its two clock readings and its key.\<close>

fun Allow_seq :: "RateLimiter \<Rightarrow> (int \<times> int \<times> string) list \<Rightarrow> bool list \<times> RateLimiter" where
  "Allow_seq rl [] = ([], rl)"
| "Allow_seq rl ((now, cnow, clientID) # cs) =
     (let r = Allow rl now cnow clientID;
          rs = Allow_seq (snd r) cs
      in (fst r # fst rs, snd rs))"

text \<open>
  The per-client part of \<open>GetMapState\<close>; the last update is kept as an instant rather
  than formatted.
\<close>

record ClientState =
  cs_tokens :: int
  cs_last_update :: int
  cs_time_since_last_update_ms :: int
  cs_is_active :: bool

definition GetMapState_clients :: "RateLimiter \<Rightarrow> int \<Rightarrow> string \<Rightarrow> ClientState option" where
  "GetMapState_clients rl now clientID =
     (case tokens rl clientID of
        None \<Rightarrow> None
      | Some _ \<Rightarrow>
          (case lastUpdate rl clientID of
             None \<Rightarrow> None
           | Some lu \<Rightarrow>
               (let timeSinceLastUpdate = time_Sub now lu in
                Some \<lparr> cs_tokens = calculateCurrentTokens rl clientID now,
                       cs_last_update = lu,
                       cs_time_since_last_update_ms = trunc_quot timeSinceLastUpdate Millisecond,
                       cs_is_active = (timeSinceLastUpdate < inactiveThreshold rl) \<rparr>)))"

text \<open>Every stored token count lies between 0 and the burst size.\<close>

definition bucket_inv :: "RateLimiter \<Rightarrow> bool" where
  "bucket_inv rl = (\<forall>k v. tokens rl k = Some v \<longrightarrow> 0 \<le> v \<and> v \<le> burstSize rl)"

text \<open>The token count of a key just before \<open>Allow\<close> consumes a token.\<close>

definition tokens_before_consume :: "RateLimiter \<Rightarrow> int \<Rightarrow> int \<Rightarrow> string \<Rightarrow> int option" where
  "tokens_before_consume rl now cnow clientID =
     (case Allow_refreshed rl now cnow clientID of None \<Rightarrow> None | Some r \<Rightarrow> tokens r clientID)"

text \<open>The store in which a key has never been seen.\<close>

definition without_key :: "RateLimiter \<Rightarrow> string \<Rightarrow> RateLimiter" where
  "without_key rl clientID =
     rl\<lparr> tokens := (tokens rl)(clientID := None),
         lastUpdate := (lastUpdate rl)(clientID := None) \<rparr>"

text \<open>
  The capped lazy refill in the words of the specification:
  \<open>clamp(tokens + floor(elapsedSeconds * refillRatePerSecond), 0, burstCapacity)\<close>,
  with the elapsed time in nanoseconds.
\<close>

definition clamp :: "int \<Rightarrow> int \<Rightarrow> int \<Rightarrow> int" where
  "clamp x lo hi = (if x < lo then lo else if x > hi then hi else x)"

definition spec_capped_lazy_refill :: "int \<Rightarrow> int \<Rightarrow> int \<Rightarrow> int \<Rightarrow> int" where
  "spec_capped_lazy_refill tokens0 elapsed rps burst =
     clamp (tokens0 + (elapsed * rps) div Second) 0 burst"

text \<open>
  A key polled again and again: each call \<open>(now, cnow)\<close> comes after the previous one
  \<open>t0\<close>, less than \<open>1 / rps\<close> seconds later, and its sweep reading \<open>cnow\<close> is at most
  the inactivity threshold \<open>it\<close> after \<open>t0\<close>.
\<close>

fun polled :: "int \<Rightarrow> int \<Rightarrow> int \<Rightarrow> (int \<times> int) list \<Rightarrow> bool" where
  "polled rps it t0 [] = True"
| "polled rps it t0 ((now, cnow) # cs) =
     (t0 \<le> now \<and> now \<le> cnow \<and> (now - t0) * rps < Second \<and> cnow - t0 \<le> it
      \<and> polled rps it now cs)"

fun calls_for :: "string \<Rightarrow> (int \<times> int) list \<Rightarrow> (int \<times> int \<times> string) list" where
  "calls_for clientID [] = []"
| "calls_for clientID ((now, cnow) # cs) = (now, cnow, clientID) # calls_for clientID cs"

fun calls_at :: "int \<Rightarrow> string list \<Rightarrow> (int \<times> int \<times> string) list" where
  "calls_at t [] = []"
| "calls_at t (clientID # ks) = (t, t, clientID) # calls_at t ks"

section \<open>Client identity\<close>

text \<open>
  A request as far as \<open>GetClientID\<close> reads it.  The header map is keyed by canonical
  header names, as \<open>net/http\<close> stores them, and \<open>Header.Get\<close> canonicalises its argument:
  \<open>X-Real-IP\<close> is looked up as \<open>X-Real-Ip\<close>.
\<close>

record Request =
  Header :: "string \<Rightarrow> string list option"
  RemoteAddr :: string

definition Header_Get :: "(string \<Rightarrow> string list option) \<Rightarrow> string \<Rightarrow> string" where
  "Header_Get h key = (case h key of None \<Rightarrow> [] | Some [] \<Rightarrow> [] | Some (v # _) \<Rightarrow> v)"

text \<open>\<open>strings.Index\<close> and \<open>strings.LastIndex\<close> for a separator of one byte.\<close>

definition strings_Index :: "string \<Rightarrow> char \<Rightarrow> int" where
  "strings_Index s c =
     (if c \<in> set s then int (length (takeWhile (\<lambda>x. x \<noteq> c) s)) else - 1)"

definition strings_LastIndex :: "string \<Rightarrow> char \<Rightarrow> int" where
  "strings_LastIndex s c =
     (if c \<in> set s
      then int (length s) - 1 - int (length (takeWhile (\<lambda>x. x \<noteq> c) (rev s)))
      else - 1)"

text \<open>
  \<open>strings.TrimSpace\<close> removes the leading and the trailing white space of a string
  of bytes read as UTF-8.  White space (\<open>unicode.IsSpace\<close>) is tab, line feed,
  vertical tab, form feed, carriage return, space, U+0085 and U+00A0 (two bytes each),
  and U+1680, U+2000 to U+200A, U+2028, U+2029, U+202F, U+205F and U+3000 (three bytes
  each).  At the end of the string the bytes are matched backwards, as
  \<open>DecodeLastRuneInString\<close> reads them.
\<close>

definition isAsciiSpace :: "char \<Rightarrow> bool" where
  "isAsciiSpace c = (c = CHR 0x09 \<or> c = CHR 0x0A \<or> c = CHR 0x0B \<or> c = CHR 0x0C
                   \<or> c = CHR 0x0D \<or> c = CHR 0x20)"

definition isSpace2 :: "char \<Rightarrow> char \<Rightarrow> bool" where
  "isSpace2 a b = (a = CHR 0xC2 \<and> (b = CHR 0x85 \<or> b = CHR 0xA0))"

definition isSpace3 :: "char \<Rightarrow> char \<Rightarrow> char \<Rightarrow> bool" where
  "isSpace3 a b c =
     ((a = CHR 0xE1 \<and> b = CHR 0x9A \<and> c = CHR 0x80)
      \<or> (a = CHR 0xE2 \<and> b = CHR 0x80
          \<and> ((0x80 \<le> (of_char c :: nat) \<and> (of_char c :: nat) \<le> 0x8A)
              \<or> c = CHR 0xA8 \<or> c = CHR 0xA9 \<or> c = CHR 0xAF))
      \<or> (a = CHR 0xE2 \<and> b = CHR 0x81 \<and> c = CHR 0x9F)
      \<or> (a = CHR 0xE3 \<and> b = CHR 0x80 \<and> c = CHR 0x80))"

fun trimLeftSpace :: "string \<Rightarrow> string" where
  "trimLeftSpace (a # b # c # s) =
     (if isAsciiSpace a then trimLeftSpace (b # c # s)
      else if isSpace2 a b then trimLeftSpace (c # s)
      else if isSpace3 a b c then trimLeftSpace s
      else a # b # c # s)"
| "trimLeftSpace [a, b] =
     (if isAsciiSpace a then trimLeftSpace [b]
      else if isSpace2 a b then []
      else [a, b])"
| "trimLeftSpace [a] = (if isAsciiSpace a then [] else [a])"
| "trimLeftSpace [] = []"

fun trimRightSpaceRev :: "string \<Rightarrow> string" where
  "trimRightSpaceRev (c # b # a # s) =
     (if isAsciiSpace c then trimRightSpaceRev (b # a # s)
      else if isSpace2 b c then trimRightSpaceRev (a # s)
      else if isSpace3 a b c then trimRightSpaceRev s
      else c # b # a # s)"
| "trimRightSpaceRev [c, b] =
     (if isAsciiSpace c then trimRightSpaceRev [b]
      else if isSpace2 b c then []
      else [c, b])"
| "trimRightSpaceRev [c] = (if isAsciiSpace c then [] else [c])"
| "trimRightSpaceRev [] = []"

definition strings_TrimSpace :: "string \<Rightarrow> string" where
  "strings_TrimSpace s = rev (trimRightSpaceRev (rev (trimLeftSpace s)))"

definition GetClientID :: "Request \<Rightarrow> string" where
  "GetClientID r =
     (let realIP = Header_Get (Header r) ''X-Real-Ip'' in
      if realIP \<noteq> [] then realIP
      else
        (let forwardedFor = Header_Get (Header r) ''X-Forwarded-For'' in
         if forwardedFor \<noteq> [] then
           (let commaIdx = strings_Index forwardedFor CHR '','' in
            if commaIdx > 0 then strings_TrimSpace (take (nat commaIdx) forwardedFor)
            else strings_TrimSpace forwardedFor)
         else
           (let clientID = RemoteAddr r;
                clientID = (if clientID = [] then ''unknown'' else clientID);
                colonIdx = strings_LastIndex clientID CHR '':''
            in if colonIdx > 0 then take (nat colonIdx) clientID else clientID)))"

text \<open>
  The resolver in the words of the specification: the real-IP header verbatim if it is
  not empty; else the forwarded-for header split at commas, its first element trimmed;
  else the socket address without the suffix that starts at its rightmost colon.
\<close>

definition spec_first_entry :: "string \<Rightarrow> string" where
  "spec_first_entry s = strings_TrimSpace (takeWhile (\<lambda>x. x \<noteq> CHR '','') s)"

definition spec_strip_port :: "string \<Rightarrow> string" where
  "spec_strip_port s =
     (if CHR '':'' \<in> set s then rev (tl (dropWhile (\<lambda>x. x \<noteq> CHR '':'') (rev s))) else s)"

definition spec_resolve :: "Request \<Rightarrow> string" where
  "spec_resolve r =
     (if Header_Get (Header r) ''X-Real-Ip'' \<noteq> [] then Header_Get (Header r) ''X-Real-Ip''
      else if Header_Get (Header r) ''X-Forwarded-For'' \<noteq> []
      then spec_first_entry (Header_Get (Header r) ''X-Forwarded-For'')
      else spec_strip_port (RemoteAddr r))"

section \<open>Example stores\<close>

text \<open>
  A store with one key that was last touched at instant 0 and has one token left: one
  request per second, a burst of 2, the default intervals.
\<close>

definition one_token_store :: RateLimiter where
  "one_token_store =
     \<lparr> requestsPerSecond = 1, burstSize = 2, tokens = [''k'' \<mapsto> 1],
       lastUpdate = [''k'' \<mapsto> 0], cleanupInterval = 60000000000,
       inactiveThreshold = 300000000000, lastCleanup = 0 \<rparr>"

text \<open>
  A store whose key has spent its burst of 2 at instant 0, with an inactivity threshold
  of one second.
\<close>

definition drained_store :: RateLimiter where
  "drained_store =
     \<lparr> requestsPerSecond = 1, burstSize = 2, tokens = [''k'' \<mapsto> 0],
       lastUpdate = [''k'' \<mapsto> 0], cleanupInterval = 60000000000,
       inactiveThreshold = 1000000000, lastCleanup = 0 \<rparr>"

text \<open>The same with a burst of 1 and a threshold of 100 milliseconds.\<close>

definition short_threshold_store :: RateLimiter where
  "short_threshold_store =
     \<lparr> requestsPerSecond = 1, burstSize = 1, tokens = [''k'' \<mapsto> 0],
       lastUpdate = [''k'' \<mapsto> 0], cleanupInterval = 60000000000,
       inactiveThreshold = 100000000, lastCleanup = 0 \<rparr>"

text \<open>
  The store of the repository's cleanup test, read at 120 seconds: \<open>client1\<close> was last
  touched two minutes ago, \<open>client2\<close> thirty seconds ago, the threshold is one minute.
\<close>

definition idle_store :: RateLimiter where
  "idle_store =
     \<lparr> requestsPerSecond = 10, burstSize = 5, tokens = [''client1'' \<mapsto> 3, ''client2'' \<mapsto> 2],
       lastUpdate = [''client1'' \<mapsto> 0, ''client2'' \<mapsto> 90000000000],
       cleanupInterval = 60000000000, inactiveThreshold = 60000000000, lastCleanup = 0 \<rparr>"

text \<open>
  A store of 100 requests per second and a burst of 200 whose key is at 0 tokens since
  instant 0.
\<close>

definition refilling_store :: RateLimiter where
  "refilling_store =
     \<lparr> requestsPerSecond = 100, burstSize = 200, tokens = [''k'' \<mapsto> 0],
       lastUpdate = [''k'' \<mapsto> 0], cleanupInterval = 60000000000,
       inactiveThreshold = 300000000000, lastCleanup = 0 \<rparr>"

section \<open>Configuration is never changed\<close>

lemma cleanup_config [simp]:
  "requestsPerSecond (cleanup rl c) = requestsPerSecond rl"
  "burstSize (cleanup rl c) = burstSize rl"
  "cleanupInterval (cleanup rl c) = cleanupInterval rl"
  "inactiveThreshold (cleanup rl c) = inactiveThreshold rl"
  by (simp_all add: cleanup_def Let_def)

lemma sweep_if_due_config [simp]:
  "requestsPerSecond (sweep_if_due rl now c) = requestsPerSecond rl"
  "burstSize (sweep_if_due rl now c) = burstSize rl"
  "cleanupInterval (sweep_if_due rl now c) = cleanupInterval rl"
  "inactiveThreshold (sweep_if_due rl now c) = inactiveThreshold rl"
  by (simp_all add: sweep_if_due_def)

lemma fill_config [simp]:
  "requestsPerSecond (fill rl now k) = requestsPerSecond rl"
  "burstSize (fill rl now k) = burstSize rl"
  "cleanupInterval (fill rl now k) = cleanupInterval rl"
  "inactiveThreshold (fill rl now k) = inactiveThreshold rl"
  "lastCleanup (fill rl now k) = lastCleanup rl"
  by (simp_all add: fill_def)

lemma recompute_config [simp]:
  "requestsPerSecond (recompute rl now k) = requestsPerSecond rl"
  "burstSize (recompute rl now k) = burstSize rl"
  "cleanupInterval (recompute rl now k) = cleanupInterval rl"
  "inactiveThreshold (recompute rl now k) = inactiveThreshold rl"
  "lastCleanup (recompute rl now k) = lastCleanup rl"
  by (simp_all add: recompute_def)

lemma consume_config [simp]:
  "requestsPerSecond (snd (consume rl k)) = requestsPerSecond rl"
  "burstSize (snd (consume rl k)) = burstSize rl"
  "cleanupInterval (snd (consume rl k)) = cleanupInterval rl"
  "inactiveThreshold (snd (consume rl k)) = inactiveThreshold rl"
  "lastCleanup (snd (consume rl k)) = lastCleanup rl"
  "lastUpdate (snd (consume rl k)) = lastUpdate rl"
  by (simp_all add: consume_def)

lemma init_or_reset_config:
  assumes "init_or_reset rl now k = Some r"
  shows "requestsPerSecond r = requestsPerSecond rl"
    and "burstSize r = burstSize rl"
    and "cleanupInterval r = cleanupInterval rl"
    and "inactiveThreshold r = inactiveThreshold rl"
    and "lastCleanup r = lastCleanup rl"
  using assms by (auto simp: init_or_reset_def split: option.splits if_splits)

lemma Allow_config [simp]:
  "requestsPerSecond (snd (Allow rl now c k)) = requestsPerSecond rl"
  "burstSize (snd (Allow rl now c k)) = burstSize rl"
  "cleanupInterval (snd (Allow rl now c k)) = cleanupInterval rl"
  "inactiveThreshold (snd (Allow rl now c k)) = inactiveThreshold rl"
  by (auto simp: Allow_def Allow_refreshed_def split: option.splits
           dest: init_or_reset_config)

lemma Allow_seq_config [simp]:
  "requestsPerSecond (snd (Allow_seq rl cs)) = requestsPerSecond rl"
  "burstSize (snd (Allow_seq rl cs)) = burstSize rl"
  "cleanupInterval (snd (Allow_seq rl cs)) = cleanupInterval rl"
  "inactiveThreshold (snd (Allow_seq rl cs)) = inactiveThreshold rl"
  by (induction rl cs rule: Allow_seq.induct; simp add: Let_def)+

section \<open>Token counts stay within the burst size\<close>

lemma calculateCurrentTokens_range:
  assumes "0 \<le> burstSize rl"
  shows "0 \<le> calculateCurrentTokens rl k now \<and> calculateCurrentTokens rl k now \<le> burstSize rl"
  using assms by (simp add: calculateCurrentTokens_def Let_def split: option.splits)

lemma bucket_inv_cleanup:
  "bucket_inv rl \<Longrightarrow> bucket_inv (cleanup rl c)"
  by (auto simp: bucket_inv_def cleanup_def Let_def split: option.splits if_splits)

lemma bucket_inv_sweep_if_due:
  "bucket_inv rl \<Longrightarrow> bucket_inv (sweep_if_due rl now c)"
  using bucket_inv_cleanup [of rl c]
  by (simp add: sweep_if_due_def bucket_inv_def)

lemma bucket_inv_fill:
  "0 \<le> burstSize rl \<Longrightarrow> bucket_inv rl \<Longrightarrow> bucket_inv (fill rl now k)"
  by (simp add: bucket_inv_def fill_def)

lemma bucket_inv_init_or_reset:
  "0 \<le> burstSize rl \<Longrightarrow> bucket_inv rl \<Longrightarrow> init_or_reset rl now k = Some r \<Longrightarrow> bucket_inv r"
  by (auto simp: init_or_reset_def bucket_inv_fill split: option.splits if_splits)

lemma bucket_inv_recompute:
  assumes "0 \<le> burstSize rl" and "bucket_inv rl"
  shows "bucket_inv (recompute rl now k)"
  using assms calculateCurrentTokens_range [OF assms(1), of k now]
  by (simp add: bucket_inv_def recompute_def)

lemma bucket_inv_consume:
  assumes "bucket_inv rl"
  shows "bucket_inv (snd (consume rl k))"
proof (cases "tokens rl k")
  case None
  then show ?thesis using assms by (simp add: consume_def tokens_at_def)
next
  case (Some v)
  with assms have "0 \<le> v" "v \<le> burstSize rl"
    by (auto simp: bucket_inv_def)
  have "v - 1 \<le> burstSize rl"
    using \<open>v \<le> burstSize rl\<close> by simp
  with Some assms show ?thesis
    by (auto simp: consume_def tokens_at_def bucket_inv_def)
qed

lemma bucket_inv_Allow:
  assumes "0 \<le> burstSize rl" and "bucket_inv rl"
  shows "bucket_inv (snd (Allow rl now c k))"
proof (cases "init_or_reset (sweep_if_due rl now c) now k")
  case None
  then show ?thesis
    using assms(2) by (simp add: Allow_def Allow_refreshed_def bucket_inv_sweep_if_due)
next
  case (Some r)
  have s: "bucket_inv (sweep_if_due rl now c)"
    using assms(2) by (rule bucket_inv_sweep_if_due)
  have b: "burstSize r = burstSize rl"
    using init_or_reset_config(2) [OF Some] by simp
  have "bucket_inv r"
    using bucket_inv_init_or_reset [OF _ s Some] assms(1) by simp
  then have "bucket_inv (recompute r now k)"
    using assms(1) b by (simp add: bucket_inv_recompute)
  then show ?thesis
    using Some by (simp add: Allow_def Allow_refreshed_def bucket_inv_consume)
qed

lemma bucket_inv_Allow_seq:
  "0 \<le> burstSize rl \<Longrightarrow> bucket_inv rl \<Longrightarrow> bucket_inv (snd (Allow_seq rl cs))"
proof (induction rl cs rule: Allow_seq.induct)
  case (1 rl)
  then show ?case by simp
next
  case (2 rl now cnow clientID cs)
  have "bucket_inv (snd (Allow rl now cnow clientID))"
    using "2.prems" by (simp add: bucket_inv_Allow)
  then show ?case
    using "2.IH" [OF refl] "2.prems"(1) by (simp add: Let_def)
qed

lemma bucket_inv_NewRateLimiter:
  "bucket_inv (NewRateLimiter rps burst w ci it)"
  by (simp add: bucket_inv_def NewRateLimiter_def)

lemma GetMapState_clients_tokens:
  "GetMapState_clients rl now k = Some e \<Longrightarrow> cs_tokens e = calculateCurrentTokens rl k now"
  by (auto simp: GetMapState_clients_def Let_def split: option.splits)

section \<open>Rounding to float64\<close>

lemma float64_round_zero [simp]: "float64_round 0 = 0"
  by (simp add: float64_round_def)

lemma float64_of_int_zero [simp]: "float64_of_int 0 = 0"
  by (simp add: float64_of_int_def)

lemma float64_to_int_zero [simp]: "float64_to_int 0 = 0"
  by (simp add: float64_to_int_def minInt64_def maxInt64_def)

lemma float64_exponent_le:
  assumes "0 < x"
  shows "2 powi (float64_exponent x) \<le> x"
proof -
  obtain p q where pq: "quotient_of x = (p, q)"
    by (cases "quotient_of x")
  then have q: "0 < q" and x: "x = of_int p / of_int q"
    by (simp_all add: quotient_of_denom_pos quotient_of_div)
  from assms q x have p: "0 < p"
    by (simp add: zero_less_divide_iff)
  let ?e = "bitlen p - bitlen q"
  show ?thesis
  proof (cases "2 powi ?e \<le> x")
    case True
    then show ?thesis by (simp add: float64_exponent_def pq)
  next
    case False
    have bp: "2 ^ nat (bitlen p - 1) \<le> p" and bq: "q < 2 ^ nat (bitlen q)"
      using bitlen_bounds [OF p] bitlen_bounds [OF q] by simp_all
    have p1: "1 \<le> bitlen p"
      using p by (simp add: bitlen_alt_def)
    have "?e - 1 = (bitlen p - 1) - bitlen q"
      by simp
    then have "(2::rat) powi (?e - 1) = 2 powi (bitlen p - 1) / 2 powi (bitlen q)"
      by (simp only: power_int_diff [of "2::rat", simplified])
    also have "\<dots> = 2 ^ nat (bitlen p - 1) / 2 ^ nat (bitlen q)"
      using p1 bitlen_nonneg [of q] by (simp add: power_int_def)
    also have "\<dots> \<le> of_int p / 2 ^ nat (bitlen q)"
    proof -
      have "(2::rat) ^ nat (bitlen p - 1) \<le> of_int p"
        using bp by (metis of_int_le_iff of_int_numeral of_int_power)
      then show ?thesis by (simp add: divide_right_mono)
    qed
    also have "\<dots> \<le> of_int p / of_int q"
    proof -
      have "(of_int q :: rat) \<le> 2 ^ nat (bitlen q)"
        using bq by (metis less_imp_le of_int_le_iff of_int_numeral of_int_power)
      then show ?thesis using p q by (simp add: frac_le)
    qed
    also note x [symmetric]
    finally show ?thesis
      using False by (simp add: float64_exponent_def pq)
  qed
qed

lemma round_half_even_le: "of_int (round_half_even m) \<le> m + 1 / 2"
proof -
  define f where "f = \<lfloor>m\<rfloor>"
  have f: "of_int f \<le> m"
    unfolding f_def by simp
  have "round_half_even m = f \<or> (round_half_even m = f + 1 \<and> 1 / 2 \<le> m - of_int f)"
    unfolding round_half_even_def Let_def f_def by auto
  then show ?thesis
    using f by auto
qed

lemma round_half_even_nonneg: "0 \<le> m \<Longrightarrow> 0 \<le> round_half_even m"
  by (auto simp: round_half_even_def Let_def)

lemma float64_round_nonneg:
  assumes "0 \<le> x"
  shows "0 \<le> float64_round x"
proof (cases "x = 0")
  case True
  then show ?thesis by simp
next
  case False
  with assms have x: "0 < x" by simp
  let ?u = "(2::rat) powi (float64_exponent \<bar>x\<bar> - 52)"
  have u: "0 < ?u" by simp
  have "0 \<le> round_half_even (\<bar>x\<bar> / ?u)"
    using x u by (intro round_half_even_nonneg) simp
  then show ?thesis
    using x u by (simp add: float64_round_def Let_def)
qed

lemma float64_round_le:
  assumes "0 \<le> x"
  shows "float64_round x \<le> x * (1 + 1 / 2 ^ 53)"
proof (cases "x = 0")
  case True
  then show ?thesis by simp
next
  case False
  with assms have x: "0 < x" by simp
  let ?e = "float64_exponent x"
  let ?u = "(2::rat) powi (?e - 52)"
  have u: "0 < ?u" by simp
  have r: "float64_round x = of_int (round_half_even (x / ?u)) * ?u"
    using x by (simp add: float64_round_def Let_def)
  have "of_int (round_half_even (x / ?u)) * ?u \<le> (x / ?u + 1 / 2) * ?u"
    using u round_half_even_le [of "x / ?u"] by (simp add: mult_right_mono)
  also have "\<dots> = x + ?u / 2"
    using u by (simp add: algebra_simps)
  also have "?u / 2 = 2 powi ?e / 2 ^ 53"
    by (simp add: power_int_diff)
  also have "x + 2 powi ?e / 2 ^ 53 \<le> x + x / 2 ^ 53"
    using float64_exponent_le [OF x] by (simp add: divide_right_mono)
  also have "\<dots> = x * (1 + 1 / 2 ^ 53)"
    by (simp add: algebra_simps)
  finally show ?thesis by (simp add: r)
qed

lemma Duration_Seconds_zero [simp]: "Duration_Seconds 0 = 0"
  by (simp add: Duration_Seconds_def trunc_quot_def)

lemma tokensToAdd_zero_elapsed [simp]: "tokensToAdd 0 rps = 0"
  by (simp add: tokensToAdd_def)

lemma tokensToAdd_zero_rate [simp]: "tokensToAdd d 0 = 0"
  by (simp add: tokensToAdd_def)

lemma float64_round_bound:
  assumes "0 \<le> x" and "x \<le> b"
  shows "float64_round x \<le> b * (1 + 1 / 2 ^ 53)"
proof -
  have "float64_round x \<le> x * (1 + 1 / 2 ^ 53)"
    using assms(1) by (rule float64_round_le)
  also have "\<dots> \<le> b * (1 + 1 / 2 ^ 53)"
    using assms(2) by (simp add: mult_right_mono)
  finally show ?thesis .
qed

lemma Duration_Seconds_nonneg:
  assumes "0 \<le> d"
  shows "0 \<le> Duration_Seconds d"
proof -
  let ?sec = "trunc_quot d Second"
  have s: "?sec = d div Second"
    using assms by (cases "d = 0") (simp_all add: trunc_quot_def Second_def)
  have "0 \<le> ?sec"
    unfolding s using assms by (simp add: Second_def pos_imp_zdiv_nonneg_iff)
  then have a: "0 \<le> float64_of_int ?sec"
    by (simp add: float64_of_int_def float64_round_nonneg)
  have "0 \<le> d - ?sec * Second"
    unfolding s by (simp add: Second_def minus_div_mult_eq_mod)
  then have "0 \<le> float64_of_int (d - ?sec * Second)"
    by (simp only: float64_of_int_def float64_round_nonneg of_int_0_le_iff)
  then have b: "0 \<le> float64_round (float64_of_int (d - ?sec * Second) / 1000000000)"
    by (intro float64_round_nonneg) simp
  show ?thesis
    unfolding Duration_Seconds_def Let_def
    by (intro float64_round_nonneg add_nonneg_nonneg a b)
qed

lemma tokensToAdd_floor:
  assumes "0 \<le> d" and "0 \<le> rps"
    and "\<lfloor>float64_round (Duration_Seconds d * float64_of_int rps)\<rfloor> \<le> maxInt64"
  shows "tokensToAdd d rps = \<lfloor>float64_round (Duration_Seconds d * float64_of_int rps)\<rfloor>"
proof -
  let ?f = "float64_round (Duration_Seconds d * float64_of_int rps)"
  have "0 \<le> Duration_Seconds d * float64_of_int rps"
    using assms(1,2) by (simp add: Duration_Seconds_nonneg float64_of_int_def float64_round_nonneg)
  then have f: "0 \<le> ?f"
    by (rule float64_round_nonneg)
  then have "0 \<le> \<lfloor>?f\<rfloor>" by simp
  with f assms(3) show ?thesis
    by (simp add: tokensToAdd_def float64_to_int_def minInt64_def)
qed

lemma tokensToAdd_small:
  assumes "0 \<le> d" and "1 \<le> rps" and "d * rps < Second"
  shows "tokensToAdd d rps = 0"
proof -
  let ?c = "(1::rat) + 1 / 2 ^ 53"
  have c: "0 \<le> ?c" by simp
  have "d * 1 \<le> d * rps"
    using assms(1,2) by (intro mult_left_mono) simp_all
  with assms(3) have dS: "d < Second" by simp
  then have sec: "trunc_quot d Second = 0"
    using assms(1) by (simp add: trunc_quot_def Second_def)
  let ?a2 = "float64_of_int d"
  let ?a3 = "float64_round (?a2 / 1000000000)"
  let ?s = "float64_round ?a3"
  let ?rf = "float64_of_int rps"
  let ?g = "float64_round (?s * ?rf)"
  have ds: "Duration_Seconds d = ?s"
    by (simp add: Duration_Seconds_def sec)
  have d0: "(0::rat) \<le> of_int d" and r0: "(0::rat) \<le> of_int rps"
    using assms(1,2) by simp_all
  have a2: "0 \<le> ?a2" "?a2 \<le> of_int d * ?c"
    using d0 by (simp_all only: float64_of_int_def float64_round_nonneg float64_round_le)
  have a3: "0 \<le> ?a3" "?a3 \<le> of_int d * ?c / 1000000000 * ?c"
  proof -
    have x: "0 \<le> ?a2 / 1000000000" using a2(1) by simp
    have y: "?a2 / 1000000000 \<le> of_int d * ?c / 1000000000"
      using a2(2) by (simp only: divide_right_mono zero_le_numeral)
    show "0 \<le> ?a3" using x by (rule float64_round_nonneg)
    show "?a3 \<le> of_int d * ?c / 1000000000 * ?c" using x y by (rule float64_round_bound)
  qed
  have s: "0 \<le> ?s" "?s \<le> of_int d * ?c / 1000000000 * ?c * ?c"
    using a3 by (simp_all only: float64_round_nonneg float64_round_bound)
  have rf: "0 \<le> ?rf" "?rf \<le> of_int rps * ?c"
    using r0 by (simp_all only: float64_of_int_def float64_round_nonneg float64_round_le)
  have p0: "0 \<le> ?s * ?rf"
    using s(1) rf(1) by simp
  have p: "?s * ?rf \<le> (of_int d * ?c / 1000000000 * ?c * ?c) * (of_int rps * ?c)"
    using s rf by (intro mult_mono) (simp_all only: order_trans [OF s(1) s(2)])
  have g0: "0 \<le> ?g"
    using p0 by (rule float64_round_nonneg)
  have "?g \<le> (of_int d * ?c / 1000000000 * ?c * ?c) * (of_int rps * ?c) * ?c"
    using p0 p by (rule float64_round_bound)
  also have "\<dots> = of_int (d * rps) * (?c ^ 5 / 1000000000)"
    by (simp add: power_numeral_reduce algebra_simps)
  also have "\<dots> \<le> of_int (Second - 1) * (?c ^ 5 / 1000000000)"
  proof -
    have "d * rps \<le> Second - 1" using assms(3) by simp
    then have "(of_int (d * rps) :: rat) \<le> of_int (Second - 1)"
      by (simp only: of_int_le_iff)
    then show ?thesis
      by (intro mult_right_mono) simp_all
  qed
  also have "\<dots> < 1"
    by (simp add: Second_def power_divide)
  finally have g1: "?g < 1" .
  from g0 g1 have "\<lfloor>?g\<rfloor> = 0"
    by (simp add: floor_eq_iff)
  with g0 show ?thesis
    by (simp add: tokensToAdd_def ds float64_to_int_def minInt64_def maxInt64_def)
qed

lemma tokensToAdd_one_second: "tokensToAdd 1000000000 1 = 1"
  by code_simp

lemma tokensToAdd_290ms_rate_100: "tokensToAdd 290000000 100 = 28"
  by code_simp

lemma float64_product_290ms_rate_100:
  "\<lfloor>float64_round (Duration_Seconds 290000000 * float64_of_int 100)\<rfloor> = 28"
  by code_simp

section \<open>Calls at one instant\<close>

lemma wrap64_id: "minInt64 \<le> x \<Longrightarrow> x \<le> maxInt64 \<Longrightarrow> wrap64 x = x"
  by (simp add: wrap64_def minInt64_def maxInt64_def)

lemma time_Sub_self [simp]: "time_Sub t t = 0"
  by (simp add: time_Sub_def minInt64_def maxInt64_def)

lemma cleanup_absent: "tokens rl k = None \<Longrightarrow> tokens (cleanup rl c) k = None"
  by (simp add: cleanup_def Let_def split: option.splits)

lemma cleanup_keeps:
  assumes "lastUpdate rl k = Some lu" and "\<not> lu < c + wrap64 (- inactiveThreshold rl)"
  shows "tokens (cleanup rl c) k = tokens rl k" and "lastUpdate (cleanup rl c) k = Some lu"
  using assms by (simp_all add: cleanup_def Let_def time_Add_def time_Before_def)

lemma cleanup_evicts:
  assumes "lastUpdate rl k = Some lu" and "lu < c + wrap64 (- inactiveThreshold rl)"
  shows "tokens (cleanup rl c) k = None" and "lastUpdate (cleanup rl c) k = None"
  using assms by (simp_all add: cleanup_def Let_def time_Add_def time_Before_def)

lemma sweep_if_due_absent:
  "tokens rl k = None \<Longrightarrow> tokens (sweep_if_due rl now c) k = None"
  by (simp add: sweep_if_due_def cleanup_absent)

lemma sweep_if_due_keeps:
  assumes "lastUpdate rl k = Some lu" and "\<not> lu < c + wrap64 (- inactiveThreshold rl)"
  shows "tokens (sweep_if_due rl now c) k = tokens rl k"
    and "lastUpdate (sweep_if_due rl now c) k = Some lu"
  using assms cleanup_keeps [OF assms] by (simp_all add: sweep_if_due_def)

lemma calculateCurrentTokens_now:
  assumes "lastUpdate rl k = Some now" and "tokens rl k = Some v"
    and "0 \<le> v" and "v \<le> burstSize rl" and "burstSize rl \<le> maxInt64"
  shows "calculateCurrentTokens rl k now = v"
proof -
  have "wrap64 v = v"
    using assms by (intro wrap64_id) (simp_all add: minInt64_def)
  then show ?thesis
    using assms by (simp add: calculateCurrentTokens_def tokens_at_def Let_def)
qed

lemma consume_result:
  assumes "tokens rl k = Some v"
  shows "fst (consume rl k) = (0 < v)"
    and "tokens (snd (consume rl k)) k = Some (if 0 < v then v - 1 else v)"
  using assms by (simp_all add: consume_def tokens_at_def)

lemma Allow_fresh:
  assumes "tokens rl k = None" and "requestsPerSecond rl \<noteq> 0"
    and "0 \<le> burstSize rl" and "burstSize rl \<le> maxInt64"
  shows "tokens_before_consume rl now c k = Some (burstSize rl)"
    and "fst (Allow rl now c k) = (0 < burstSize rl)"
    and "tokens (snd (Allow rl now c k)) k = Some (if 0 < burstSize rl then burstSize rl - 1 else 0)"
    and "lastUpdate (snd (Allow rl now c k)) k = Some now"
proof -
  let ?s = "sweep_if_due rl now c"
  let ?f = "fill ?s now k"
  have i: "init_or_reset ?s now k = Some ?f"
    using assms(1,2) by (simp add: init_or_reset_def sweep_if_due_absent)
  have f: "lastUpdate ?f k = Some now" "tokens ?f k = Some (burstSize rl)"
    by (simp_all add: fill_def)
  have c: "calculateCurrentTokens ?f k now = burstSize rl"
    using calculateCurrentTokens_now [OF f(1) f(2)] assms(3,4) by simp
  have r: "Allow_refreshed rl now c k = Some (recompute ?f now k)"
    by (simp add: Allow_refreshed_def i)
  have t: "tokens (recompute ?f now k) k = Some (burstSize rl)"
    by (simp add: recompute_def c)
  show "tokens_before_consume rl now c k = Some (burstSize rl)"
    by (simp add: tokens_before_consume_def r t)
  show "fst (Allow rl now c k) = (0 < burstSize rl)"
    by (simp add: Allow_def r consume_result(1) [OF t])
  show "tokens (snd (Allow rl now c k)) k = Some (if 0 < burstSize rl then burstSize rl - 1 else 0)"
    using assms(3) by (simp add: Allow_def r consume_result(2) [OF t])
  show "lastUpdate (snd (Allow rl now c k)) k = Some now"
    by (simp add: Allow_def r recompute_def)
qed

lemma Allow_same_instant:
  assumes "tokens rl k = Some v" and "lastUpdate rl k = Some t"
    and "0 \<le> v" and "v \<le> burstSize rl" and "burstSize rl \<le> maxInt64"
    and "0 \<le> inactiveThreshold rl" and "inactiveThreshold rl \<le> maxInt64"
  shows "fst (Allow rl t t k) = (0 < v)"
    and "tokens (snd (Allow rl t t k)) k = Some (if 0 < v then v - 1 else 0)"
    and "lastUpdate (snd (Allow rl t t k)) k = Some t"
proof -
  let ?s = "sweep_if_due rl t t"
  have w: "wrap64 (- inactiveThreshold rl) = - inactiveThreshold rl"
    using assms(6,7) by (intro wrap64_id) (simp_all add: minInt64_def maxInt64_def)
  have n: "\<not> t < t + wrap64 (- inactiveThreshold rl)"
    using assms(6) by (simp add: w)
  have s: "tokens ?s k = Some v" "lastUpdate ?s k = Some t"
    using sweep_if_due_keeps [OF assms(2) n] assms(1) by simp_all
  have i: "init_or_reset ?s t k = Some ?s"
    using assms(6) by (simp add: init_or_reset_def s lastUpdate_at_def)
  have c: "calculateCurrentTokens ?s k t = v"
    using calculateCurrentTokens_now [OF s(2) s(1)] assms(3,4,5) by simp
  have r: "Allow_refreshed rl t t k = Some (recompute ?s t k)"
    by (simp add: Allow_refreshed_def i)
  have tk: "tokens (recompute ?s t k) k = Some v"
    by (simp add: recompute_def c)
  show "fst (Allow rl t t k) = (0 < v)"
    by (simp add: Allow_def r consume_result(1) [OF tk])
  show "tokens (snd (Allow rl t t k)) k = Some (if 0 < v then v - 1 else 0)"
    using assms(3) by (simp add: Allow_def r consume_result(2) [OF tk])
  show "lastUpdate (snd (Allow rl t t k)) k = Some t"
    by (simp add: Allow_def r recompute_def)
qed

lemma Allow_seq_same_instant:
  assumes "tokens rl k = Some v" and "lastUpdate rl k = Some t"
    and "0 \<le> v" and "v \<le> burstSize rl" and "burstSize rl \<le> maxInt64"
    and "0 \<le> inactiveThreshold rl" and "inactiveThreshold rl \<le> maxInt64"
  shows "fst (Allow_seq rl (replicate n (t, t, k)))
         = replicate (min n (nat v)) True @ replicate (n - nat v) False"
  using assms
proof (induction n arbitrary: rl v)
  case 0
  then show ?case by simp
next
  case (Suc n)
  let ?r = "snd (Allow rl t t k)"
  let ?v = "if 0 < v then v - 1 else 0"
  note a = Allow_same_instant [OF Suc.prems]
  have "fst (Allow_seq ?r (replicate n (t, t, k)))
        = replicate (min n (nat ?v)) True @ replicate (n - nat ?v) False"
    using Suc.prems by (intro Suc.IH a(2) a(3)) simp_all
  then have e: "fst (Allow_seq rl (replicate (Suc n) (t, t, k)))
        = (0 < v) # replicate (min n (nat ?v)) True @ replicate (n - nat ?v) False"
    by (simp add: Let_def a(1))
  show ?case
  proof (cases "0 < v")
    case True
    then obtain m where m: "nat v = Suc m"
      by (metis Suc_pred' zero_less_nat_eq)
    with True have "nat (v - 1) = m" by simp
    with True m e show ?thesis by (simp add: Suc_diff_le)
  next
    case False
    with Suc.prems(3) have "v = 0" by simp
    with e show ?thesis by (simp flip: replicate_Suc)
  qed
qed

lemma Allow_zero_rate_absent:
  assumes "requestsPerSecond rl = 0" and "tokens rl k = None"
  shows "Allow rl now c k = (False, sweep_if_due rl now c)"
  using assms
  by (simp add: Allow_def Allow_refreshed_def init_or_reset_def sweep_if_due_absent)

lemma cleanup_empty:
  assumes "tokens rl = (\<lambda>_. None)" and "lastUpdate rl = (\<lambda>_. None)"
  shows "tokens (cleanup rl c) = (\<lambda>_. None)" and "lastUpdate (cleanup rl c) = (\<lambda>_. None)"
  using assms by (simp_all add: cleanup_def Let_def)

lemma sweep_if_due_empty:
  assumes "tokens rl = (\<lambda>_. None)" and "lastUpdate rl = (\<lambda>_. None)"
  shows "tokens (sweep_if_due rl now c) = (\<lambda>_. None)"
    and "lastUpdate (sweep_if_due rl now c) = (\<lambda>_. None)"
  using cleanup_empty [OF assms] assms by (simp_all add: sweep_if_due_def)

lemma Allow_seq_zero_rate:
  assumes "requestsPerSecond rl = 0" and "tokens rl = (\<lambda>_. None)" and "lastUpdate rl = (\<lambda>_. None)"
  shows "True \<notin> set (fst (Allow_seq rl cs))
       \<and> tokens (snd (Allow_seq rl cs)) = (\<lambda>_. None)
       \<and> lastUpdate (snd (Allow_seq rl cs)) = (\<lambda>_. None)"
  using assms
proof (induction rl cs rule: Allow_seq.induct)
  case (1 rl)
  then show ?case by simp
next
  case (2 rl now cnow clientID cs)
  have a: "Allow rl now cnow clientID = (False, sweep_if_due rl now cnow)"
    using "2.prems" by (simp add: Allow_zero_rate_absent)
  have "True \<notin> set (fst (Allow_seq (snd (Allow rl now cnow clientID)) cs))
       \<and> tokens (snd (Allow_seq (snd (Allow rl now cnow clientID)) cs)) = (\<lambda>_. None)
       \<and> lastUpdate (snd (Allow_seq (snd (Allow rl now cnow clientID)) cs)) = (\<lambda>_. None)"
    using "2.prems" sweep_if_due_empty [OF "2.prems"(2,3)]
    by (intro "2.IH" [OF refl]) (simp_all add: a)
  then show ?case by (auto simp: Let_def a)
qed

section \<open>Sweeps, resets and refills\<close>

lemma wrap64_neg:
  "minInt64 < x \<Longrightarrow> x \<le> maxInt64 \<Longrightarrow> wrap64 (- x) = - x"
  by (intro wrap64_id) (simp_all add: minInt64_def maxInt64_def)

lemma sweep_if_due_cases:
  assumes "lastUpdate rl k = Some lu"
  shows "(tokens (sweep_if_due rl now c) k = None \<and> lastUpdate (sweep_if_due rl now c) k = None)
       \<or> (tokens (sweep_if_due rl now c) k = tokens rl k
          \<and> lastUpdate (sweep_if_due rl now c) k = Some lu)"
  using assms by (simp add: sweep_if_due_def cleanup_def Let_def)

lemma Allow_filled:
  assumes "init_or_reset (sweep_if_due rl now c) now k = Some (fill (sweep_if_due rl now c) now k)"
    and "0 \<le> burstSize rl" and "burstSize rl \<le> maxInt64"
  shows "tokens_before_consume rl now c k = Some (burstSize rl)"
proof -
  let ?f = "fill (sweep_if_due rl now c) now k"
  have f: "lastUpdate ?f k = Some now" "tokens ?f k = Some (burstSize rl)"
    by (simp_all add: fill_def)
  have "calculateCurrentTokens ?f k now = burstSize rl"
    using calculateCurrentTokens_now [OF f(1) f(2)] assms(2,3) by simp
  then show ?thesis
    by (simp add: tokens_before_consume_def Allow_refreshed_def assms(1) recompute_def)
qed

lemma clamp_full:
  assumes "0 \<le> b"
  shows "(b = clamp x 0 b) = (b \<le> x \<or> b = 0)"
  using assms by (auto simp: clamp_def)

lemma cleanup_without_key:
  assumes "lastUpdate rl k = Some lu" and "lu < c + wrap64 (- inactiveThreshold rl)"
  shows "cleanup rl c = cleanup (without_key rl k) c"
proof -
  have "tokens (cleanup rl c) = tokens (cleanup (without_key rl k) c)"
    using assms
    by (auto simp: cleanup_def without_key_def Let_def time_Add_def time_Before_def fun_eq_iff
          split: option.splits)
  moreover have "lastUpdate (cleanup rl c) = lastUpdate (cleanup (without_key rl k) c)"
    using assms
    by (auto simp: cleanup_def without_key_def Let_def time_Add_def time_Before_def fun_eq_iff
          split: option.splits)
  ultimately show ?thesis
    by (simp add: cleanup_def without_key_def Let_def)
qed

lemma Allow_sets_lastUpdate:
  assumes "requestsPerSecond rl \<noteq> 0"
  shows "lastUpdate (snd (Allow rl now cnow k)) k = Some now"
proof -
  have "\<exists>r. init_or_reset (sweep_if_due rl now cnow) now k = Some r"
    using assms by (simp add: init_or_reset_def split: option.splits)
  then obtain r where "init_or_reset (sweep_if_due rl now cnow) now k = Some r"
    by blast
  then show ?thesis
    by (simp add: Allow_def Allow_refreshed_def recompute_def)
qed

lemma Allow_polled:
  assumes "1 \<le> requestsPerSecond rl" and "inactiveThreshold rl \<le> maxInt64"
    and "tokens rl k = Some 0" and "lastUpdate rl k = Some t0"
    and "t0 \<le> now" and "now \<le> cnow"
    and "(now - t0) * requestsPerSecond rl < Second"
    and "cnow - t0 \<le> inactiveThreshold rl"
  shows "\<not> fst (Allow rl now cnow k)"
    and "tokens (snd (Allow rl now cnow k)) k = Some 0"
    and "lastUpdate (snd (Allow rl now cnow k)) k = Some now"
proof -
  let ?s = "sweep_if_due rl now cnow"
  have it: "0 \<le> inactiveThreshold rl"
    using assms(5,6,8) by simp
  then have w: "wrap64 (- inactiveThreshold rl) = - inactiveThreshold rl"
    using assms(2) by (intro wrap64_neg) (simp_all add: minInt64_def)
  have n: "\<not> t0 < cnow + wrap64 (- inactiveThreshold rl)"
    using assms(8) by (simp add: w)
  have s: "tokens ?s k = Some 0" "lastUpdate ?s k = Some t0"
    using sweep_if_due_keeps [OF assms(4) n] assms(3) by simp_all
  have d: "time_Sub now t0 = now - t0"
    using assms(2,5,6,8) by (simp add: time_Sub_def minInt64_def)
  have i: "init_or_reset ?s now k = Some ?s"
    using assms(6,8) by (simp add: init_or_reset_def s lastUpdate_at_def d)
  have g: "tokensToAdd (now - t0) (requestsPerSecond rl) = 0"
    using assms(1,5,7) by (intro tokensToAdd_small) simp_all
  have c: "calculateCurrentTokens ?s k now = 0"
    by (simp add: calculateCurrentTokens_def s d g tokens_at_def wrap64_def Let_def)
  have r: "Allow_refreshed rl now cnow k = Some (recompute ?s now k)"
    by (simp add: Allow_refreshed_def i)
  have tk: "tokens (recompute ?s now k) k = Some 0"
    by (simp add: recompute_def c)
  show "\<not> fst (Allow rl now cnow k)"
    by (simp add: Allow_def r consume_result(1) [OF tk])
  show "tokens (snd (Allow rl now cnow k)) k = Some 0"
    by (simp add: Allow_def r consume_result(2) [OF tk])
  show "lastUpdate (snd (Allow rl now cnow k)) k = Some now"
    by (simp add: Allow_def r recompute_def)
qed

lemma Allow_seq_polled:
  assumes "1 \<le> requestsPerSecond rl" and "inactiveThreshold rl \<le> maxInt64"
    and "tokens rl k = Some 0" and "lastUpdate rl k = Some t0"
    and "polled (requestsPerSecond rl) (inactiveThreshold rl) t0 ps"
  shows "True \<notin> set (fst (Allow_seq rl (calls_for k ps)))
       \<and> tokens (snd (Allow_seq rl (calls_for k ps))) k = Some 0"
  using assms
proof (induction ps arbitrary: rl t0)
  case Nil
  then show ?case by simp
next
  case (Cons p ps)
  obtain now cnow where p: "p = (now, cnow)" by (cases p)
  from Cons.prems(5) p have q: "t0 \<le> now" "now \<le> cnow"
    "(now - t0) * requestsPerSecond rl < Second" "cnow - t0 \<le> inactiveThreshold rl"
    "polled (requestsPerSecond rl) (inactiveThreshold rl) now ps"
    by simp_all
  let ?r = "snd (Allow rl now cnow k)"
  note a = Allow_polled [OF Cons.prems(1-4) q(1-4)]
  have "True \<notin> set (fst (Allow_seq ?r (calls_for k ps)))
       \<and> tokens (snd (Allow_seq ?r (calls_for k ps))) k = Some 0"
    using Cons.prems(1,2) q(5) by (intro Cons.IH [OF _ _ a(2) a(3)]) simp_all
  then show ?case
    using a(1) by (simp add: p Let_def)
qed

lemma Allow_within_threshold:
  assumes "tokens rl k = Some v" and "lastUpdate rl k = Some lu"
    and "lu \<le> now" and "now \<le> cnow"
    and "cnow - lu \<le> inactiveThreshold rl" and "inactiveThreshold rl \<le> maxInt64"
  shows "tokens_before_consume rl now cnow k
         = Some (max 0 (min (burstSize rl)
             (wrap64 (v + tokensToAdd (now - lu) (requestsPerSecond rl)))))"
    and "fst (Allow rl now cnow k)
         = (0 < max 0 (min (burstSize rl)
             (wrap64 (v + tokensToAdd (now - lu) (requestsPerSecond rl)))))"
    and "lastUpdate (snd (Allow rl now cnow k)) k = Some now"
proof -
  let ?s = "sweep_if_due rl now cnow"
  let ?g = "max 0 (min (burstSize rl) (wrap64 (v + tokensToAdd (now - lu) (requestsPerSecond rl))))"
  have it: "0 \<le> inactiveThreshold rl"
    using assms(3,4,5) by simp
  then have w: "wrap64 (- inactiveThreshold rl) = - inactiveThreshold rl"
    using assms(6) by (intro wrap64_neg) (simp_all add: minInt64_def)
  have n: "\<not> lu < cnow + wrap64 (- inactiveThreshold rl)"
    using assms(5) by (simp add: w)
  have s: "tokens ?s k = Some v" "lastUpdate ?s k = Some lu"
    using sweep_if_due_keeps [OF assms(2) n] assms(1) by simp_all
  have d: "time_Sub now lu = now - lu"
    using assms(3,4,5,6) by (simp add: time_Sub_def minInt64_def)
  have i: "init_or_reset ?s now k = Some ?s"
    using assms(4,5) by (simp add: init_or_reset_def s lastUpdate_at_def d)
  have c: "calculateCurrentTokens ?s k now = ?g"
    by (simp add: calculateCurrentTokens_def s d tokens_at_def Let_def min_def max_def)
  have r: "Allow_refreshed rl now cnow k = Some (recompute ?s now k)"
    by (simp add: Allow_refreshed_def i)
  have tk: "tokens (recompute ?s now k) k = Some ?g"
    by (simp add: recompute_def c)
  show "tokens_before_consume rl now cnow k = Some ?g"
    by (simp add: tokens_before_consume_def r tk)
  show "fst (Allow rl now cnow k) = (0 < ?g)"
    by (simp add: Allow_def r consume_result(1) [OF tk])
  show "lastUpdate (snd (Allow rl now cnow k)) k = Some now"
    by (simp add: Allow_def r recompute_def)
qed

lemma Allow_sets_lastUpdate_reachable:
  assumes "tokens (snd (Allow_seq (NewRateLimiter r b w ci it) cs)) k \<noteq> None"
  shows "lastUpdate (snd (Allow (snd (Allow_seq (NewRateLimiter r b w ci it) cs)) now cnow k)) k
         = Some now"
proof (cases "r = 0")
  case True
  have "requestsPerSecond (NewRateLimiter 0 b w ci it) = 0"
    and "tokens (NewRateLimiter 0 b w ci it) = (\<lambda>_. None)"
    and "lastUpdate (NewRateLimiter 0 b w ci it) = (\<lambda>_. None)"
    by (simp_all add: NewRateLimiter_def)
  from Allow_seq_zero_rate [OF this, of cs] assms True show ?thesis
    by simp
next
  case False
  then have "requestsPerSecond (snd (Allow_seq (NewRateLimiter r b w ci it) cs)) \<noteq> 0"
    by (simp add: NewRateLimiter_def)
  then show ?thesis
    by (rule Allow_sets_lastUpdate)
qed

section \<open>Calls for other keys\<close>

lemma Allow_other_key:
  assumes "a \<noteq> k"
  shows "tokens (snd (Allow rl now cnow a)) k = tokens (sweep_if_due rl now cnow) k"
    and "lastUpdate (snd (Allow rl now cnow a)) k = lastUpdate (sweep_if_due rl now cnow) k"
    and "lastCleanup (snd (Allow rl now cnow a)) = lastCleanup (sweep_if_due rl now cnow)"
  using assms
  by (auto simp: Allow_def Allow_refreshed_def init_or_reset_def fill_def recompute_def
        consume_def split: option.splits)

lemma sweep_if_due_pointwise:
  assumes "inactiveThreshold r1 = inactiveThreshold r2"
    and "cleanupInterval r1 = cleanupInterval r2"
    and "lastCleanup r1 = lastCleanup r2"
    and "tokens r1 k = tokens r2 k" and "lastUpdate r1 k = lastUpdate r2 k"
  shows "tokens (sweep_if_due r1 now c) k = tokens (sweep_if_due r2 now c) k"
    and "lastUpdate (sweep_if_due r1 now c) k = lastUpdate (sweep_if_due r2 now c) k"
  using assms by (auto simp: sweep_if_due_def cleanup_def Let_def split: option.splits)

lemma sweep_if_due_twice:
  "tokens (sweep_if_due (sweep_if_due rl t t) t t) k = tokens (sweep_if_due rl t t) k"
  "lastUpdate (sweep_if_due (sweep_if_due rl t t) t t) k = lastUpdate (sweep_if_due rl t t) k"
  by (auto simp: sweep_if_due_def cleanup_def Let_def split: option.splits)

lemma calculateCurrentTokens_cong:
  assumes "requestsPerSecond r1 = requestsPerSecond r2" and "burstSize r1 = burstSize r2"
    and "tokens r1 k = tokens r2 k" and "lastUpdate r1 k = lastUpdate r2 k"
  shows "calculateCurrentTokens r1 k now = calculateCurrentTokens r2 k now"
  unfolding calculateCurrentTokens_def tokens_at_def assms by (rule refl)

lemma fst_consume_recompute:
  "fst (consume (recompute r now k) k) = (0 < calculateCurrentTokens r k now)"
  by (simp add: consume_def recompute_def tokens_at_def)

lemma fst_Allow:
  "fst (Allow rl now c k)
   = (case init_or_reset (sweep_if_due rl now c) now k of
        None \<Rightarrow> False
      | Some r \<Rightarrow> 0 < calculateCurrentTokens r k now)"
  by (simp add: Allow_def Allow_refreshed_def fst_consume_recompute split: option.splits)

lemma init_or_reset_cong:
  assumes "requestsPerSecond s1 = requestsPerSecond s2" and "burstSize s1 = burstSize s2"
    and "inactiveThreshold s1 = inactiveThreshold s2"
    and "tokens s1 k = tokens s2 k" and "lastUpdate s1 k = lastUpdate s2 k"
  shows "(case init_or_reset s1 now k of None \<Rightarrow> False
          | Some r \<Rightarrow> 0 < calculateCurrentTokens r k now)
       = (case init_or_reset s2 now k of None \<Rightarrow> False
          | Some r \<Rightarrow> 0 < calculateCurrentTokens r k now)"
proof (cases "tokens s2 k")
  case None
  have "calculateCurrentTokens (fill s1 now k) k now = calculateCurrentTokens (fill s2 now k) k now"
    using assms by (intro calculateCurrentTokens_cong) (simp_all add: fill_def)
  with None assms show ?thesis
    by (simp add: init_or_reset_def)
next
  case (Some v)
  have f: "calculateCurrentTokens (fill s1 now k) k now = calculateCurrentTokens (fill s2 now k) k now"
    using assms by (intro calculateCurrentTokens_cong) (simp_all add: fill_def)
  have g: "calculateCurrentTokens s1 k now = calculateCurrentTokens s2 k now"
    using assms(1,2,4,5) by (rule calculateCurrentTokens_cong)
  from Some assms f g show ?thesis
    by (simp add: init_or_reset_def lastUpdate_at_def)
qed

lemma Allow_outcome_cong:
  assumes "requestsPerSecond r1 = requestsPerSecond r2"
    and "burstSize r1 = burstSize r2"
    and "inactiveThreshold r1 = inactiveThreshold r2"
    and "tokens (sweep_if_due r1 now c1) k = tokens (sweep_if_due r2 now c2) k"
    and "lastUpdate (sweep_if_due r1 now c1) k = lastUpdate (sweep_if_due r2 now c2) k"
  shows "fst (Allow r1 now c1 k) = fst (Allow r2 now c2 k)"
  unfolding fst_Allow
  using assms by (intro init_or_reset_cong) simp_all

lemma sweep_after_other_key:
  assumes "a \<noteq> k"
  shows "tokens (sweep_if_due (snd (Allow rl t t a)) t t) k = tokens (sweep_if_due rl t t) k"
    and "lastUpdate (sweep_if_due (snd (Allow rl t t a)) t t) k = lastUpdate (sweep_if_due rl t t) k"
proof -
  let ?r = "snd (Allow rl t t a)"
  let ?s = "sweep_if_due rl t t"
  note o = Allow_other_key [OF assms, of rl t t]
  have c: "inactiveThreshold ?r = inactiveThreshold ?s" "cleanupInterval ?r = cleanupInterval ?s"
    by simp_all
  note p = sweep_if_due_pointwise [OF c o(3) o(1) o(2), of t t]
  show "tokens (sweep_if_due ?r t t) k = tokens ?s k"
    using p(1) by (simp add: sweep_if_due_twice)
  show "lastUpdate (sweep_if_due ?r t t) k = lastUpdate ?s k"
    using p(2) by (simp add: sweep_if_due_twice)
qed

lemma sweep_after_other_keys:
  assumes "k \<notin> set ks"
  shows "tokens (sweep_if_due (snd (Allow_seq rl (calls_at t ks))) t t) k
           = tokens (sweep_if_due rl t t) k
       \<and> lastUpdate (sweep_if_due (snd (Allow_seq rl (calls_at t ks))) t t) k
           = lastUpdate (sweep_if_due rl t t) k"
  using assms
proof (induction ks arbitrary: rl)
  case Nil
  then show ?case by simp
next
  case (Cons a ks)
  then have "a \<noteq> k" "k \<notin> set ks" by auto
  from Cons.IH [OF this(2), of "snd (Allow rl t t a)"] sweep_after_other_key [OF this(1), of rl t]
  show ?case by (simp add: Let_def)
qed

section \<open>Searching and slicing strings\<close>

lemma take_strings_Index:
  assumes "0 < strings_Index s c"
  shows "take (nat (strings_Index s c)) s = takeWhile (\<lambda>x. x \<noteq> c) s"
proof -
  from assms have "c \<in> set s"
    by (simp add: strings_Index_def split: if_splits)
  then have "strings_Index s c = int (length (takeWhile (\<lambda>x. x \<noteq> c) s))"
    by (simp add: strings_Index_def)
  then show ?thesis
    by (simp add: takeWhile_eq_take [symmetric])
qed

lemma strings_Index_absent:
  assumes "\<not> 0 < strings_Index s c" and "strings_Index s c \<noteq> 0"
  shows "takeWhile (\<lambda>x. x \<noteq> c) s = s"
proof -
  from assms have "c \<notin> set s"
    by (auto simp: strings_Index_def split: if_splits)
  then show ?thesis
    by (auto simp: takeWhile_eq_all_conv)
qed

lemma length_takeWhile_member:
  "c \<in> set s \<Longrightarrow> length (takeWhile (\<lambda>x. x \<noteq> c) s) < length s"
  by (induction s) auto

lemma rev_tl_dropWhile_rev:
  "rev (tl (dropWhile P (rev s))) = take (length s - Suc (length (takeWhile P (rev s)))) s"
proof -
  have "tl (dropWhile P (rev s)) = drop (Suc (length (takeWhile P (rev s)))) (rev s)"
    by (simp add: dropWhile_eq_drop tl_drop drop_Suc)
  then show ?thesis
    by (simp add: rev_drop)
qed

lemma take_strings_LastIndex:
  assumes "0 < strings_LastIndex s c"
  shows "c \<in> set s"
    and "take (nat (strings_LastIndex s c)) s = rev (tl (dropWhile (\<lambda>x. x \<noteq> c) (rev s)))"
proof -
  from assms show m: "c \<in> set s"
    by (simp add: strings_LastIndex_def split: if_splits)
  then have "strings_LastIndex s c
      = int (length s) - 1 - int (length (takeWhile (\<lambda>x. x \<noteq> c) (rev s)))"
    by (simp add: strings_LastIndex_def)
  with assms have "nat (strings_LastIndex s c)
      = length s - Suc (length (takeWhile (\<lambda>x. x \<noteq> c) (rev s)))"
    by simp
  then show "take (nat (strings_LastIndex s c)) s = rev (tl (dropWhile (\<lambda>x. x \<noteq> c) (rev s)))"
    by (simp add: rev_tl_dropWhile_rev)
qed

lemma strings_LastIndex_absent:
  assumes "\<not> 0 < strings_LastIndex s c" and "strings_LastIndex s c \<noteq> 0"
  shows "c \<notin> set s"
proof
  assume m: "c \<in> set s"
  then have "length (takeWhile (\<lambda>x. x \<noteq> c) (rev s)) < length (rev s)"
    by (intro length_takeWhile_member) simp
  then have "0 \<le> strings_LastIndex s c"
    using m by (simp add: strings_LastIndex_def)
  with assms show False by simp
qed

text \<open>
  No-break space (U+00A0) in front, a space and an em space (U+2003) behind are removed;
  a zero-width space (U+200B) is not white space and stays.
\<close>

lemma strings_TrimSpace_unicode:
  "strings_TrimSpace [CHR 0xC2, CHR 0xA0, CHR ''a'', CHR '' '', CHR 0xE2, CHR 0x80, CHR 0x83] = ''a''"
  "strings_TrimSpace [CHR 0xE2, CHR 0x80, CHR 0x8B, CHR ''a''] = [CHR 0xE2, CHR 0x80, CHR 0x8B, CHR ''a'']"
  by (simp_all add: strings_TrimSpace_def isAsciiSpace_def isSpace2_def isSpace3_def)

text \<open>
  Where the code agrees with the resolver of the specification: on every request whose
  forwarded-for header, when it is the one used, does not begin with a comma, and whose
  socket address, when it is the one used, is not empty and does not have its rightmost
  colon as first character.
\<close>

lemma GetClientID_agrees_with_spec:
  assumes "Header_Get (Header r) ''X-Real-Ip'' = []
         \<longrightarrow> strings_Index (Header_Get (Header r) ''X-Forwarded-For'') CHR '','' \<noteq> 0"
    and "Header_Get (Header r) ''X-Real-Ip'' = [] \<and> Header_Get (Header r) ''X-Forwarded-For'' = []
         \<longrightarrow> RemoteAddr r \<noteq> [] \<and> strings_LastIndex (RemoteAddr r) CHR '':'' \<noteq> 0"
  shows "GetClientID r = spec_resolve r"
proof (cases "Header_Get (Header r) ''X-Real-Ip'' = []")
  case False
  then show ?thesis by (simp add: GetClientID_def spec_resolve_def)
next
  case real: True
  show ?thesis
  proof (cases "Header_Get (Header r) ''X-Forwarded-For'' = []")
    case False
    let ?f = "Header_Get (Header r) ''X-Forwarded-For''"
    show ?thesis
    proof (cases "0 < strings_Index ?f CHR '',''")
      case True
      with real False show ?thesis
        by (simp add: GetClientID_def spec_resolve_def spec_first_entry_def take_strings_Index)
    next
      case no: False
      from assms(1) real have "strings_Index ?f CHR '','' \<noteq> 0" by simp
      note tw = strings_Index_absent [OF no this]
      from real False no show ?thesis
        by (simp add: GetClientID_def spec_resolve_def spec_first_entry_def tw)
    qed
  next
    case fwd: True
    let ?a = "RemoteAddr r"
    from assms(2) real fwd have a: "?a \<noteq> []" "strings_LastIndex ?a CHR '':'' \<noteq> 0"
      by simp_all
    show ?thesis
    proof (cases "0 < strings_LastIndex ?a CHR '':''")
      case True
      from take_strings_LastIndex [OF True] real fwd a True show ?thesis
        by (simp add: GetClientID_def spec_resolve_def spec_strip_port_def)
    next
      case no: False
      from strings_LastIndex_absent [OF no a(2)] real fwd a no show ?thesis
        by (simp add: GetClientID_def spec_resolve_def spec_strip_port_def)
    qed
  qed
qed

text \<open>
  Socket addresses that differ in the port only resolve to one key; the first
  forwarded-for entry wins over the socket address, the real-IP header over both.
\<close>

lemma GetClientID_examples:
  "GetClientID \<lparr> Header = Map.empty, RemoteAddr = ''203.0.113.5:1111'' \<rparr> = ''203.0.113.5''
   \<and> GetClientID \<lparr> Header = Map.empty, RemoteAddr = ''203.0.113.5:2222'' \<rparr> = ''203.0.113.5''
   \<and> GetClientID \<lparr> Header = [''X-Forwarded-For'' \<mapsto> [''203.0.113.1, 70.41.3.18'']],
         RemoteAddr = ''10.0.0.1:1234'' \<rparr> = ''203.0.113.1''
   \<and> GetClientID \<lparr> Header = [''X-Real-Ip'' \<mapsto> [''192.168.1.1''],
                          ''X-Forwarded-For'' \<mapsto> [''203.0.113.1, 70.41.3.18'']],
         RemoteAddr = ''10.0.0.1:1234'' \<rparr> = ''192.168.1.1''"
  using GetClientID_agrees_with_spec [of "\<lparr> Header = Map.empty, RemoteAddr = ''203.0.113.5:1111'' \<rparr>"]
    GetClientID_agrees_with_spec [of "\<lparr> Header = Map.empty, RemoteAddr = ''203.0.113.5:2222'' \<rparr>"]
    GetClientID_agrees_with_spec [of "\<lparr> Header = [''X-Forwarded-For'' \<mapsto> [''203.0.113.1, 70.41.3.18'']],
         RemoteAddr = ''10.0.0.1:1234'' \<rparr>"]
    GetClientID_agrees_with_spec [of "\<lparr> Header = [''X-Real-Ip'' \<mapsto> [''192.168.1.1''],
                          ''X-Forwarded-For'' \<mapsto> [''203.0.113.1, 70.41.3.18'']],
         RemoteAddr = ''10.0.0.1:1234'' \<rparr>"]
  by (simp add: spec_resolve_def spec_strip_port_def spec_first_entry_def
      Header_Get_def strings_Index_def strings_LastIndex_def strings_TrimSpace_def
      isAsciiSpace_def isSpace2_def isSpace3_def)

section \<open>The claims\<close>

text \<open>
  Claim C1, as amended.  For a store whose rate is not 0, whose burst size \<open>B\<close> is at
  least 0 and whose inactivity threshold is at least 0, a key with no bucket is admitted
  on exactly the first \<open>B\<close> of \<open>B + 1\<close> calls made at one instant, and the last of
  them is denied.  (Burst size and threshold are Go integers, hence at most the largest
  64-bit value.)
\<close>

theorem fresh_key_admitted_burst_times:
  assumes "requestsPerSecond rl \<noteq> 0"
    and "0 \<le> burstSize rl" and "burstSize rl \<le> maxInt64"
    and "0 \<le> inactiveThreshold rl" and "inactiveThreshold rl \<le> maxInt64"
    and "tokens rl k = None"
  shows "fst (Allow_seq rl (replicate (nat (burstSize rl) + 1) (t, t, k)))
         = replicate (nat (burstSize rl)) True @ [False]"
proof -
  let ?B = "burstSize rl"
  let ?r = "snd (Allow rl t t k)"
  let ?v = "if 0 < ?B then ?B - 1 else 0"
  note f = Allow_fresh [OF assms(6) assms(1) assms(2) assms(3), of t t]
  have "fst (Allow_seq ?r (replicate (nat ?B) (t, t, k)))
        = replicate (min (nat ?B) (nat ?v)) True @ replicate (nat ?B - nat ?v) False"
    using assms by (intro Allow_seq_same_instant f(3) f(4)) simp_all
  then have e: "fst (Allow_seq rl (replicate (nat ?B + 1) (t, t, k)))
        = (0 < ?B) # replicate (min (nat ?B) (nat ?v)) True @ replicate (nat ?B - nat ?v) False"
    by (simp add: Let_def f(2))
  show ?thesis
  proof (cases "0 < ?B")
    case True
    then obtain m where m: "nat ?B = Suc m"
      by (metis Suc_pred' zero_less_nat_eq)
    with True have "nat (?B - 1) = m" by simp
    with True m e show ?thesis by (simp add: min_def)
  next
    case False
    with assms(2) have "?B = 0" by simp
    with e show ?thesis by simp
  qed
qed

theorem fresh_key_admitted_burst_times_witness:
  "requestsPerSecond (NewRateLimiter 1 2 Second Minute (5 * Minute)) \<noteq> 0
   \<and> 0 \<le> burstSize (NewRateLimiter 1 2 Second Minute (5 * Minute))
   \<and> burstSize (NewRateLimiter 1 2 Second Minute (5 * Minute)) \<le> maxInt64
   \<and> 0 \<le> inactiveThreshold (NewRateLimiter 1 2 Second Minute (5 * Minute))
   \<and> inactiveThreshold (NewRateLimiter 1 2 Second Minute (5 * Minute)) \<le> maxInt64
   \<and> tokens (NewRateLimiter 1 2 Second Minute (5 * Minute)) ''client'' = None
   \<and> fst (Allow_seq (NewRateLimiter 1 2 Second Minute (5 * Minute))
             [(0, 0, ''client''), (0, 0, ''client''), (0, 0, ''client'')])
       = [True, True, False]"
  using fresh_key_admitted_burst_times [of "NewRateLimiter 1 2 Second Minute (5 * Minute)" "''client''" 0]
  by (simp add: NewRateLimiter_def Second_def Minute_def maxInt64_def numeral_eq_Suc)

text \<open>
  Claim C1 as stated fails for a rate of 0: with a burst of 5 the first call for a
  fresh key is already denied.
\<close>

theorem zero_rate_fresh_key_denied:
  "\<not> fst (Allow (NewRateLimiter 0 5 Second Minute (5 * Minute)) 0 0 ''client'')"
  by (simp add: Allow_zero_rate_absent NewRateLimiter_def)

text \<open>
  Claim C2.  With a rate of 0, \<open>Allow\<close> denies a key that has no bucket and creates
  none; and on a store made by \<open>NewRateLimiter\<close> with rate 0 every call of every
  sequence of calls is denied and both maps stay empty.
\<close>

theorem zero_rate_denies_everything:
  "(requestsPerSecond rl = 0 \<and> tokens rl k = None \<longrightarrow>
      \<not> fst (Allow rl now cnow k) \<and> tokens (snd (Allow rl now cnow k)) k = None)
   \<and> True \<notin> set (fst (Allow_seq (NewRateLimiter 0 burst w ci it) cs))
   \<and> tokens (snd (Allow_seq (NewRateLimiter 0 burst w ci it) cs)) = (\<lambda>_. None)
   \<and> lastUpdate (snd (Allow_seq (NewRateLimiter 0 burst w ci it) cs)) = (\<lambda>_. None)"
proof -
  have "requestsPerSecond (NewRateLimiter 0 burst w ci it) = 0"
    and "tokens (NewRateLimiter 0 burst w ci it) = (\<lambda>_. None)"
    and "lastUpdate (NewRateLimiter 0 burst w ci it) = (\<lambda>_. None)"
    by (simp_all add: NewRateLimiter_def)
  from Allow_seq_zero_rate [OF this, of cs] show ?thesis
    by (auto simp: Allow_zero_rate_absent sweep_if_due_absent)
qed

theorem zero_rate_denies_everything_witness:
  "requestsPerSecond (NewRateLimiter 0 5 Second Minute (5 * Minute)) = 0
   \<and> tokens (NewRateLimiter 0 5 Second Minute (5 * Minute)) ''a'' = None
   \<and> \<not> fst (Allow (NewRateLimiter 0 5 Second Minute (5 * Minute)) 0 0 ''a'')
   \<and> tokens (snd (Allow (NewRateLimiter 0 5 Second Minute (5 * Minute)) 0 0 ''a'')) ''a'' = None
   \<and> True \<notin> set (fst (Allow_seq (NewRateLimiter 0 5 Second Minute (5 * Minute))
          [(0, 0, ''a''), (0, 0, ''a''), (1000000000, 1000000000, ''b'')]))"
proof -
  have h: "requestsPerSecond (NewRateLimiter 0 5 Second Minute (5 * Minute)) = 0
      \<and> tokens (NewRateLimiter 0 5 Second Minute (5 * Minute)) ''a'' = None"
    by (simp add: NewRateLimiter_def)
  from h zero_rate_denies_everything [of "NewRateLimiter 0 5 Second Minute (5 * Minute)" "''a''"
      0 0 5 Second Minute "5 * Minute" "[(0, 0, ''a''), (0, 0, ''a''), (1000000000, 1000000000, ''b'')]"]
  show ?thesis by blast
qed

text \<open>
  Claim C3.  With a burst size of at least 0, every recomputed token count (the one
  \<open>Allow\<close> stores and the one \<open>GetMapState\<close> reports) is between 0 and the burst size,
  a fresh store satisfies the bucket invariant, and \<open>cleanup\<close>, \<open>Allow\<close> and any
  sequence of \<open>Allow\<close> calls preserve it.
\<close>

theorem tokens_within_burst:
  assumes "0 \<le> burstSize rl"
  shows "(0 \<le> calculateCurrentTokens rl k now \<and> calculateCurrentTokens rl k now \<le> burstSize rl)
       \<and> (\<forall>e. GetMapState_clients rl now k = Some e \<longrightarrow> 0 \<le> cs_tokens e \<and> cs_tokens e \<le> burstSize rl)
       \<and> bucket_inv (NewRateLimiter rps (burstSize rl) w ci it)
       \<and> (bucket_inv rl \<longrightarrow>
            bucket_inv (cleanup rl cnow)
          \<and> bucket_inv (snd (Allow rl now cnow k))
          \<and> bucket_inv (snd (Allow_seq rl cs)))"
  using calculateCurrentTokens_range [OF assms, of k now]
  by (auto simp: GetMapState_clients_tokens bucket_inv_NewRateLimiter bucket_inv_cleanup
        bucket_inv_Allow [OF assms] bucket_inv_Allow_seq [OF assms])

theorem tokens_within_burst_witness:
  "0 \<le> burstSize one_token_store \<and> bucket_inv one_token_store
   \<and> calculateCurrentTokens one_token_store ''k'' 5000000000 \<le> burstSize one_token_store
   \<and> bucket_inv (snd (Allow one_token_store 5000000000 5000000000 ''k''))"
proof -
  have h: "0 \<le> burstSize one_token_store" "bucket_inv one_token_store"
    by (simp_all add: one_token_store_def bucket_inv_def)
  from h tokens_within_burst [OF h(1), of "''k''" 5000000000 1 Second Minute Minute 5000000000 "[]"]
  show ?thesis by blast
qed

text \<open>
  Claim C5.  A key last touched more than the inactivity threshold before a sweep is
  gone after the sweep: \<open>GetMapState\<close> has no entry for it and the swept store is the
  store the sweep would have left had the key never been seen.  The next \<open>Allow\<close> for
  the key is denied without a bucket when the rate is 0, and otherwise holds the whole
  burst before it consumes a token.  (The threshold is a 64-bit duration other than the
  smallest, whose negation wraps around; the burst size is a Go integer of at least 0.)
\<close>

theorem idle_bucket_swept:
  assumes "lastUpdate rl k = Some lu"
    and "inactiveThreshold rl < cnow - lu"
    and "minInt64 < inactiveThreshold rl" and "inactiveThreshold rl \<le> maxInt64"
    and "0 \<le> burstSize rl" and "burstSize rl \<le> maxInt64"
  shows "GetMapState_clients (cleanup rl cnow) t k = None
       \<and> cleanup rl cnow = cleanup (without_key rl k) cnow
       \<and> (if requestsPerSecond rl = 0
          then Allow (cleanup rl cnow) now c k = (False, sweep_if_due (cleanup rl cnow) now c)
             \<and> tokens (snd (Allow (cleanup rl cnow) now c k)) k = None
          else tokens_before_consume (cleanup rl cnow) now c k = Some (burstSize rl)
             \<and> fst (Allow (cleanup rl cnow) now c k) = (0 < burstSize rl))"
proof -
  let ?s = "cleanup rl cnow"
  have e: "lu < cnow + wrap64 (- inactiveThreshold rl)"
    using assms(2) by (simp add: wrap64_neg [OF assms(3,4)])
  note ev = cleanup_evicts [OF assms(1) e]
  have g: "GetMapState_clients ?s t k = None"
    by (simp add: GetMapState_clients_def ev)
  have w: "?s = cleanup (without_key rl k) cnow"
    using assms(1) e by (rule cleanup_without_key)
  show ?thesis
  proof (cases "requestsPerSecond rl = 0")
    case True
    then have z: "requestsPerSecond ?s = 0" by simp
    have "Allow ?s now c k = (False, sweep_if_due ?s now c)"
      using z ev(1) by (rule Allow_zero_rate_absent)
    moreover from this have "tokens (snd (Allow ?s now c k)) k = None"
      by (simp add: sweep_if_due_absent ev(1))
    ultimately have "if requestsPerSecond rl = 0
          then Allow ?s now c k = (False, sweep_if_due ?s now c)
             \<and> tokens (snd (Allow ?s now c k)) k = None
          else tokens_before_consume ?s now c k = Some (burstSize rl)
             \<and> fst (Allow ?s now c k) = (0 < burstSize rl)"
      using True by simp
    with g w show ?thesis by blast
  next
    case False
    then have z: "requestsPerSecond ?s \<noteq> 0" by simp
    have b: "0 \<le> burstSize ?s" "burstSize ?s \<le> maxInt64"
      using assms(5,6) by simp_all
    note f = Allow_fresh [OF ev(1) z b, of now c]
    from f(1) f(2) False have "if requestsPerSecond rl = 0
          then Allow ?s now c k = (False, sweep_if_due ?s now c)
             \<and> tokens (snd (Allow ?s now c k)) k = None
          else tokens_before_consume ?s now c k = Some (burstSize rl)
             \<and> fst (Allow ?s now c k) = (0 < burstSize rl)"
      by simp
    with g w show ?thesis by blast
  qed
qed

theorem idle_bucket_swept_witness:
  "lastUpdate idle_store ''client1'' = Some 0
   \<and> inactiveThreshold idle_store < 120000000000 - 0
   \<and> GetMapState_clients (cleanup idle_store 120000000000) 120000000000 ''client1'' = None
   \<and> tokens_before_consume (cleanup idle_store 120000000000) 121000000000 121000000000 ''client1''
       = Some 5
   \<and> fst (Allow (cleanup idle_store 120000000000) 121000000000 121000000000 ''client1'')"
proof -
  have h: "lastUpdate idle_store ''client1'' = Some 0"
    "inactiveThreshold idle_store < 120000000000 - 0"
    "minInt64 < inactiveThreshold idle_store" "inactiveThreshold idle_store \<le> maxInt64"
    "0 \<le> burstSize idle_store" "burstSize idle_store \<le> maxInt64"
    by (simp_all add: idle_store_def minInt64_def maxInt64_def)
  have r: "requestsPerSecond idle_store \<noteq> 0" "burstSize idle_store = 5"
    by (simp_all add: idle_store_def)
  note th = idle_bucket_swept [OF h, of 120000000000 121000000000 121000000000]
  from th [THEN conjunct2, THEN conjunct2] r
  have "tokens_before_consume (cleanup idle_store 120000000000) 121000000000 121000000000 ''client1''
       = Some 5
     \<and> fst (Allow (cleanup idle_store 120000000000) 121000000000 121000000000 ''client1'')"
    by simp
  with th [THEN conjunct1] h(1,2) show ?thesis by blast
qed

text \<open>
  Claim C6, as amended.  For a bucket with between 0 and burst-size tokens that has
  been idle for longer than the inactivity threshold, in a store whose rate is not 0,
  \<open>Allow\<close> holds the whole burst before it consumes a token; this is the capped lazy
  refill of the specification exactly when the tokens plus the floor of elapsed seconds
  times rate reach the burst size (or the burst size is 0).
\<close>

theorem reset_versus_lazy_refill:
  assumes "tokens rl k = Some v" and "lastUpdate rl k = Some lu"
    and "0 \<le> v" and "v \<le> burstSize rl" and "burstSize rl \<le> maxInt64"
    and "inactiveThreshold rl < time_Sub now lu"
    and "requestsPerSecond rl \<noteq> 0"
  shows "tokens_before_consume rl now cnow k = Some (burstSize rl)
       \<and> ((burstSize rl = spec_capped_lazy_refill v (now - lu) (requestsPerSecond rl) (burstSize rl))
           = (burstSize rl \<le> v + ((now - lu) * requestsPerSecond rl) div Second \<or> burstSize rl = 0))"
proof -
  let ?s = "sweep_if_due rl now cnow"
  have b: "0 \<le> burstSize rl"
    using assms(3,4) by simp
  have "init_or_reset ?s now k = Some (fill ?s now k)"
    using sweep_if_due_cases [OF assms(2), of now cnow] assms(1,6,7)
    by (auto simp: init_or_reset_def lastUpdate_at_def)
  then have "tokens_before_consume rl now cnow k = Some (burstSize rl)"
    using b assms(5) by (rule Allow_filled)
  then show ?thesis
    by (simp add: spec_capped_lazy_refill_def clamp_full [OF b])
qed

theorem reset_versus_lazy_refill_witness:
  "tokens drained_store ''k'' = Some 0 \<and> lastUpdate drained_store ''k'' = Some 0
   \<and> inactiveThreshold drained_store < time_Sub 2000000000 0
   \<and> tokens_before_consume drained_store 2000000000 2000000000 ''k'' = Some 2
   \<and> spec_capped_lazy_refill 0 (2000000000 - 0) 1 2 = 2"
proof -
  have h: "tokens drained_store ''k'' = Some 0" "lastUpdate drained_store ''k'' = Some 0"
    "(0::int) \<le> 0" "0 \<le> burstSize drained_store" "burstSize drained_store \<le> maxInt64"
    "inactiveThreshold drained_store < time_Sub 2000000000 0"
    "requestsPerSecond drained_store \<noteq> 0"
    by (simp_all add: drained_store_def time_Sub_def maxInt64_def minInt64_def)
  from reset_versus_lazy_refill [OF h, of 2000000000] h(1,2,6) show ?thesis
    by (simp add: drained_store_def Second_def)
qed

text \<open>
  Claim C6 as stated fails: with rate 1, burst 2 and a threshold of one second, an empty
  bucket idle for 1.5 seconds is reset to 2 tokens, where the capped lazy refill gives 1.
\<close>

theorem reset_exceeds_lazy_refill:
  "tokens_before_consume drained_store 1500000000 1500000000 ''k'' = Some 2
   \<and> spec_capped_lazy_refill 0 (1500000000 - 0) 1 2 = 1"
  by (simp add: drained_store_def tokens_before_consume_def Allow_refreshed_def
      sweep_if_due_def cleanup_def init_or_reset_def fill_def recompute_def
      calculateCurrentTokens_def wrap64_def time_Sub_def
      time_Add_def time_Before_def tokens_at_def lastUpdate_at_def Second_def
      minInt64_def maxInt64_def Let_def spec_capped_lazy_refill_def clamp_def)

text \<open>
  Claim C7, as amended.  Every \<open>Allow\<close> call for a key that has a bucket, denied calls
  included, sets the key's last update to its clock reading: in every store that
  \<open>NewRateLimiter\<close> and \<open>Allow\<close> build, and in any store whose rate is not 0.  When
  the call (and the sweep it may run) comes no later than the inactivity threshold after
  the last update, the tokens before the consumption are the old tokens plus the grant
  \<open>tokensToAdd\<close> for the elapsed time, cut to the range from 0 to the burst size; for
  an elapsed time and a rate of at least 0 the grant is the floor of the float64 product
  of elapsed seconds and rate.  Consequently, with a rate of at least 1, a key at 0
  tokens that is polled with less than \<open>1 / rate\<close> seconds between consecutive calls,
  each call no later than the threshold after the previous one, is never admitted and
  stays at 0 tokens.
\<close>

theorem existing_key_refill_and_polling:
  "(tokens (snd (Allow_seq (NewRateLimiter r b w ci it) cs)) k' \<noteq> None \<longrightarrow>
          lastUpdate (snd (Allow (snd (Allow_seq (NewRateLimiter r b w ci it) cs)) now cnow k')) k'
            = Some now)
       \<and> (requestsPerSecond st \<noteq> 0 \<longrightarrow> lastUpdate (snd (Allow st now cnow k')) k' = Some now)
       \<and> (tokens st k' = Some v \<and> lastUpdate st k' = Some lu
            \<and> lu \<le> now \<and> now \<le> cnow
            \<and> cnow - lu \<le> inactiveThreshold st \<and> inactiveThreshold st \<le> maxInt64 \<longrightarrow>
          tokens_before_consume st now cnow k'
            = Some (max 0 (min (burstSize st)
                (wrap64 (v + tokensToAdd (now - lu) (requestsPerSecond st)))))
          \<and> fst (Allow st now cnow k')
            = (0 < max 0 (min (burstSize st)
                (wrap64 (v + tokensToAdd (now - lu) (requestsPerSecond st)))))
          \<and> lastUpdate (snd (Allow st now cnow k')) k' = Some now)
       \<and> (0 \<le> d \<and> 0 \<le> rate
            \<and> \<lfloor>float64_round (Duration_Seconds d * float64_of_int rate)\<rfloor> \<le> maxInt64 \<longrightarrow>
          tokensToAdd d rate = \<lfloor>float64_round (Duration_Seconds d * float64_of_int rate)\<rfloor>)
       \<and> (1 \<le> requestsPerSecond rl \<and> inactiveThreshold rl \<le> maxInt64
            \<and> tokens rl k = Some 0 \<and> lastUpdate rl k = Some prev
            \<and> polled (requestsPerSecond rl) (inactiveThreshold rl) prev ps \<longrightarrow>
          True \<notin> set (fst (Allow_seq rl (calls_for k ps)))
          \<and> tokens (snd (Allow_seq rl (calls_for k ps))) k = Some 0)"
proof -
  have p: "1 \<le> requestsPerSecond rl \<and> inactiveThreshold rl \<le> maxInt64
            \<and> tokens rl k = Some 0 \<and> lastUpdate rl k = Some prev
            \<and> polled (requestsPerSecond rl) (inactiveThreshold rl) prev ps \<longrightarrow>
          True \<notin> set (fst (Allow_seq rl (calls_for k ps)))
          \<and> tokens (snd (Allow_seq rl (calls_for k ps))) k = Some 0"
    using Allow_seq_polled [of rl k prev ps] by blast
  have a: "tokens (snd (Allow_seq (NewRateLimiter r b w ci it) cs)) k' \<noteq> None \<longrightarrow>
          lastUpdate (snd (Allow (snd (Allow_seq (NewRateLimiter r b w ci it) cs)) now cnow k')) k'
            = Some now"
    using Allow_sets_lastUpdate_reachable [of r b w ci it cs k' now cnow] by blast
  have a': "requestsPerSecond st \<noteq> 0 \<longrightarrow> lastUpdate (snd (Allow st now cnow k')) k' = Some now"
    using Allow_sets_lastUpdate [of st now cnow k'] by blast
  have b: "tokens st k' = Some v \<and> lastUpdate st k' = Some lu
            \<and> lu \<le> now \<and> now \<le> cnow
            \<and> cnow - lu \<le> inactiveThreshold st \<and> inactiveThreshold st \<le> maxInt64 \<longrightarrow>
          tokens_before_consume st now cnow k'
            = Some (max 0 (min (burstSize st)
                (wrap64 (v + tokensToAdd (now - lu) (requestsPerSecond st)))))
          \<and> fst (Allow st now cnow k')
            = (0 < max 0 (min (burstSize st)
                (wrap64 (v + tokensToAdd (now - lu) (requestsPerSecond st)))))
          \<and> lastUpdate (snd (Allow st now cnow k')) k' = Some now"
    using Allow_within_threshold [of st k' v lu now cnow] by blast
  have f: "0 \<le> d \<and> 0 \<le> rate
            \<and> \<lfloor>float64_round (Duration_Seconds d * float64_of_int rate)\<rfloor> \<le> maxInt64 \<longrightarrow>
          tokensToAdd d rate = \<lfloor>float64_round (Duration_Seconds d * float64_of_int rate)\<rfloor>"
    using tokensToAdd_floor [of d rate] by blast
  from a a' b f p show ?thesis by blast
qed

theorem existing_key_refill_and_polling_witness:
  "tokens (snd (Allow_seq (NewRateLimiter 1 2 Second Minute Second) [(0, 0, ''k'')])) ''k'' = Some 1
   \<and> lastUpdate (snd (Allow (snd (Allow_seq (NewRateLimiter 1 2 Second Minute Second) [(0, 0, ''k'')]))
         290000000 290000000 ''k'')) ''k'' = Some 290000000
   \<and> tokens refilling_store ''k'' = Some 0 \<and> lastUpdate refilling_store ''k'' = Some 0
   \<and> tokens_before_consume refilling_store 290000000 290000000 ''k'' = Some 28
   \<and> fst (Allow refilling_store 290000000 290000000 ''k'')
   \<and> lastUpdate (snd (Allow refilling_store 290000000 290000000 ''k'')) ''k'' = Some 290000000
   \<and> tokensToAdd 290000000 100 = 28
   \<and> \<lfloor>float64_round (Duration_Seconds 290000000 * float64_of_int 100)\<rfloor> = 28
   \<and> 1 \<le> requestsPerSecond drained_store
   \<and> tokens drained_store ''k'' = Some 0
   \<and> polled (requestsPerSecond drained_store) (inactiveThreshold drained_store) 0
       [(900000000, 900000000), (1800000000, 1800000001), (2700000000, 2700000000)]
   \<and> True \<notin> set (fst (Allow_seq drained_store
         (calls_for ''k'' [(900000000, 900000000), (1800000000, 1800000001), (2700000000, 2700000000)])))"
proof -
  let ?new = "NewRateLimiter 1 2 Second Minute Second"
  have h: "1 \<le> requestsPerSecond drained_store" "inactiveThreshold drained_store \<le> maxInt64"
    "tokens drained_store ''k'' = Some 0" "lastUpdate drained_store ''k'' = Some 0"
    "polled (requestsPerSecond drained_store) (inactiveThreshold drained_store) 0
       [(900000000, 900000000), (1800000000, 1800000001), (2700000000, 2700000000)]"
    by (simp_all add: drained_store_def maxInt64_def Second_def)
  have n: "tokens ?new ''k'' = None" "requestsPerSecond ?new \<noteq> 0"
    "0 \<le> burstSize ?new" "burstSize ?new \<le> maxInt64"
    by (simp_all add: NewRateLimiter_def maxInt64_def)
  have t1: "tokens (snd (Allow_seq ?new [(0, 0, ''k'')])) ''k'' = Some 1"
    using Allow_fresh(3) [OF n, of 0 0] by (simp add: NewRateLimiter_def Let_def)
  have st: "tokens refilling_store ''k'' = Some 0" "lastUpdate refilling_store ''k'' = Some 0"
    "(0::int) \<le> 290000000" "(290000000::int) \<le> 290000000"
    "290000000 - 0 \<le> inactiveThreshold refilling_store"
    "inactiveThreshold refilling_store \<le> maxInt64"
    by (simp_all add: refilling_store_def maxInt64_def)
  have g: "max 0 (min (burstSize refilling_store)
        (wrap64 (0 + tokensToAdd (290000000 - 0) (requestsPerSecond refilling_store)))) = 28"
    by (simp add: refilling_store_def tokensToAdd_290ms_rate_100 wrap64_def)
  have fl: "\<lfloor>float64_round (Duration_Seconds 290000000 * float64_of_int 100)\<rfloor> \<le> maxInt64"
    by (simp add: float64_product_290ms_rate_100 maxInt64_def)
  note th = existing_key_refill_and_polling [where rl = drained_store and k = "''k''" and prev = 0
      and ps = "[(900000000, 900000000), (1800000000, 1800000001), (2700000000, 2700000000)]"
      and r = 1 and b = 2 and w = Second
      and ci = Minute and it = Second and cs = "[(0, 0, ''k'')]" and k' = "''k''"
      and now = 290000000 and cnow = 290000000 and st = refilling_store and v = 0 and lu = 0
      and d = 290000000 and rate = 100]
  from th t1 have a: "lastUpdate (snd (Allow (snd (Allow_seq ?new [(0, 0, ''k'')]))
         290000000 290000000 ''k'')) ''k'' = Some 290000000"
    by simp
  from th st have b: "tokens_before_consume refilling_store 290000000 290000000 ''k''
          = Some (max 0 (min (burstSize refilling_store)
              (wrap64 (0 + tokensToAdd (290000000 - 0) (requestsPerSecond refilling_store)))))
        \<and> fst (Allow refilling_store 290000000 290000000 ''k'')
          = (0 < max 0 (min (burstSize refilling_store)
              (wrap64 (0 + tokensToAdd (290000000 - 0) (requestsPerSecond refilling_store)))))
        \<and> lastUpdate (snd (Allow refilling_store 290000000 290000000 ''k'')) ''k''
          = Some 290000000"
    by blast
  from b have b': "tokens_before_consume refilling_store 290000000 290000000 ''k'' = Some 28
        \<and> fst (Allow refilling_store 290000000 290000000 ''k'')
        \<and> lastUpdate (snd (Allow refilling_store 290000000 290000000 ''k'')) ''k''
          = Some 290000000"
    unfolding g by simp
  from th h have c: "True \<notin> set (fst (Allow_seq drained_store
         (calls_for ''k'' [(900000000, 900000000), (1800000000, 1800000001), (2700000000, 2700000000)])))"
    by blast
  from t1 a st(1,2) b' tokensToAdd_290ms_rate_100 float64_product_290ms_rate_100 h(1,3,5) c
  show ?thesis by blast
qed

text \<open>
  Claim C7 as stated fails when the threshold is shorter than the polling gap: with
  rate 1, burst 1 and a threshold of 100 milliseconds, a key at 0 tokens polled after
  500 milliseconds is reset and admitted.
\<close>

theorem polled_key_admitted_after_threshold:
  "tokens short_threshold_store ''k'' = Some 0
   \<and> lastUpdate short_threshold_store ''k'' = Some 0
   \<and> (500000000 - 0) * requestsPerSecond short_threshold_store < Second
   \<and> fst (Allow short_threshold_store 500000000 500000000 ''k'')"
  by (simp add: short_threshold_store_def Allow_def Allow_refreshed_def
      sweep_if_due_def cleanup_def init_or_reset_def fill_def recompute_def consume_def
      calculateCurrentTokens_def wrap64_def time_Sub_def
      time_Add_def time_Before_def tokens_at_def lastUpdate_at_def Second_def
      minInt64_def maxInt64_def Let_def)

text \<open>
  Claim C8.  At one instant, calls for keys other than \<open>k\<close> do not change the outcome
  of the next call for \<open>k\<close>: it is the outcome \<open>k\<close> gets on the store as it was.  At
  any instants, a call for another key leaves the bucket of \<open>k\<close> as the due sweep
  alone leaves it.
\<close>

theorem other_keys_do_not_change_outcome:
  assumes "k \<notin> set ks"
  shows "fst (Allow (snd (Allow_seq rl (calls_at t ks))) t t k) = fst (Allow rl t t k)
       \<and> (a \<noteq> k \<longrightarrow>
            tokens (snd (Allow rl now cnow a)) k = tokens (sweep_if_due rl now cnow) k
          \<and> lastUpdate (snd (Allow rl now cnow a)) k = lastUpdate (sweep_if_due rl now cnow) k)"
proof -
  have "fst (Allow (snd (Allow_seq rl (calls_at t ks))) t t k) = fst (Allow rl t t k)"
    using sweep_after_other_keys [OF assms, of rl t]
    by (intro Allow_outcome_cong) simp_all
  then show ?thesis
    by (simp add: Allow_other_key)
qed

theorem other_keys_do_not_change_outcome_witness:
  "''k'' \<notin> set [''A'', ''A'', ''A'']
   \<and> fst (Allow (snd (Allow_seq one_token_store (calls_at 1000000000 [''A'', ''A'', ''A''])))
        1000000000 1000000000 ''k'')
   \<and> fst (Allow one_token_store 1000000000 1000000000 ''k'')
   \<and> tokens (snd (Allow one_token_store 1000000000 1000000000 ''A'')) ''k'' = Some 1"
proof -
  have h: "''k'' \<notin> set [''A'', ''A'', ''A'']" "''A'' \<noteq> ''k''"
    by simp_all
  have b: "fst (Allow one_token_store 1000000000 1000000000 ''k'')"
    by (simp add: one_token_store_def Allow_def Allow_refreshed_def
      sweep_if_due_def cleanup_def init_or_reset_def fill_def recompute_def consume_def
      calculateCurrentTokens_def wrap64_def time_Sub_def
      time_Add_def time_Before_def tokens_at_def lastUpdate_at_def Second_def
      minInt64_def maxInt64_def Let_def tokensToAdd_one_second)
  have s: "tokens (sweep_if_due one_token_store 1000000000 1000000000) ''k'' = Some 1"
    by (simp add: one_token_store_def sweep_if_due_def time_Sub_def minInt64_def maxInt64_def)
  note th = other_keys_do_not_change_outcome [OF h(1), where rl = one_token_store
      and t = 1000000000 and a = "''A''" and now = 1000000000 and cnow = 1000000000]
  from th h(2) b s
  have "fst (Allow (snd (Allow_seq one_token_store (calls_at 1000000000 [''A'', ''A'', ''A''])))
        1000000000 1000000000 ''k'')
      \<and> tokens (snd (Allow one_token_store 1000000000 1000000000 ''A'')) ''k'' = Some 1"
    by simp
  with h(1) b show ?thesis by blast
qed

text \<open>
  Claim C9 does not hold of the code.  The resolver is to return the first
  comma-separated entry of the forwarded-for header and the socket address without its
  port.  For the header \<open>,10.0.0.1\<close> the first entry is empty, yet \<open>GetClientID\<close>
  returns the whole value, while \<open> ,10.0.0.1\<close> with a space before the comma gives
  the empty key; and the socket address \<open>:8080\<close> keeps its port.  Both come from
  the tests \<open>commaIdx > 0\<close> and \<open>colonIdx > 0\<close>, which miss the index 0.
\<close>

theorem leading_comma_not_first_entry:
  "GetClientID \<lparr> Header = [''X-Forwarded-For'' \<mapsto> ['',10.0.0.1'']], RemoteAddr = ''192.0.2.7:4000'' \<rparr>
     = '',10.0.0.1''
   \<and> spec_resolve \<lparr> Header = [''X-Forwarded-For'' \<mapsto> ['',10.0.0.1'']], RemoteAddr = ''192.0.2.7:4000'' \<rparr>
     = []
   \<and> GetClientID \<lparr> Header = [''X-Forwarded-For'' \<mapsto> ['' ,10.0.0.1'']], RemoteAddr = ''192.0.2.7:4000'' \<rparr>
     = []
   \<and> GetClientID \<lparr> Header = Map.empty, RemoteAddr = '':8080'' \<rparr> = '':8080''
   \<and> spec_resolve \<lparr> Header = Map.empty, RemoteAddr = '':8080'' \<rparr> = []"
  by (simp add: GetClientID_def spec_resolve_def spec_strip_port_def spec_first_entry_def
      Header_Get_def strings_Index_def strings_LastIndex_def strings_TrimSpace_def
      isAsciiSpace_def isSpace2_def isSpace3_def)

text \<open>
  Claim C10, as amended.  For a request without real-IP and forwarded-for header whose
  socket address is empty, \<open>GetClientID\<close> returns the key \<open>unknown\<close>.
\<close>

theorem empty_socket_address_unknown:
  assumes "Header_Get (Header r) ''X-Real-Ip'' = []"
    and "Header_Get (Header r) ''X-Forwarded-For'' = []"
    and "RemoteAddr r = []"
  shows "GetClientID r = ''unknown''"
  using assms by (simp add: GetClientID_def strings_LastIndex_def)

theorem empty_socket_address_unknown_witness:
  "Header_Get (Header \<lparr> Header = Map.empty, RemoteAddr = '''' \<rparr>) ''X-Real-Ip'' = []
   \<and> Header_Get (Header \<lparr> Header = Map.empty, RemoteAddr = '''' \<rparr>) ''X-Forwarded-For'' = []
   \<and> RemoteAddr \<lparr> Header = Map.empty, RemoteAddr = '''' \<rparr> = []
   \<and> GetClientID \<lparr> Header = Map.empty, RemoteAddr = '''' \<rparr> = ''unknown''"
  using empty_socket_address_unknown [of "\<lparr> Header = Map.empty, RemoteAddr = '''' \<rparr>"]
  by (simp add: Header_Get_def)

text \<open>Claim C10 as stated fails: the key for an empty socket address is not empty.\<close>

theorem empty_socket_address_not_empty_key:
  "GetClientID \<lparr> Header = Map.empty, RemoteAddr = '''' \<rparr> \<noteq> ''''"
  by (simp add: GetClientID_def Header_Get_def strings_LastIndex_def)

end
